theory Spec2Isabelle
  imports Complex_Main "HOL-Library.Word" "HOL-Library.Finite_Map"
begin

unbundle bit_operations_syntax

section \<open>Bytes, integers and exceptions\<close>

text \<open>
  The server of \<^verbatim>\<open>modbus_industrial_server.py\<close> works on Python \<^verbatim>\<open>bytes\<close> objects and on
  unbounded Python integers. A \<^verbatim>\<open>bytes\<close> object is a list of 8-bit words; every integer
  the code computes is an \<^typ>\<open>int\<close>; a \<^verbatim>\<open>dict\<close> is a finite map. Exceptions are values
  of the type \<open>error\<close>, returned on the left of a sum.
\<close>

type_synonym byte = "8 word"

datatype error = KeyError | IndexError | ValueError | OverflowError

text \<open>\<^verbatim>\<open>bytes(xs)\<close> for a list of integers: ValueError unless every element is in \<open>range(256)\<close>.\<close>

definition bytes_py :: "int list \<Rightarrow> error + byte list" where
  "bytes_py xs = (if list_all (\<lambda>x. 0 \<le> x \<and> x < 256) xs then Inr (map word_of_int xs) else Inl ValueError)"

text \<open>\<^verbatim>\<open>n.to_bytes(2, 'little')\<close>: OverflowError unless \<open>0 \<le> n < 65536\<close>.\<close>

definition to_bytes_2_little :: "int \<Rightarrow> error + byte list" where
  "to_bytes_2_little n =
     (if 0 \<le> n \<and> n < 65536 then Inr [word_of_int (n AND 0xFF), word_of_int (drop_bit 8 n AND 0xFF)]
      else Inl OverflowError)"

section \<open>CRC codec\<close>

text \<open>The body of the inner loop of \<^verbatim>\<open>_calculate_crc\<close>: one shift of the register.\<close>

definition crc_shift :: "int \<Rightarrow> int" where
  "crc_shift crc = (if crc AND 0x0001 \<noteq> 0 then drop_bit 1 crc XOR 0xA001 else drop_bit 1 crc)"

text \<open>The body of the outer loop: \<^verbatim>\<open>crc ^= byte\<close>, then eight shifts.\<close>

definition crc_update :: "int \<Rightarrow> byte \<Rightarrow> int" where
  "crc_update crc b = (crc_shift ^^ 8) (crc XOR uint b)"

definition crc_register :: "byte list \<Rightarrow> int" where
  "crc_register data = foldl crc_update 0xFFFF data"

definition calculate_crc :: "byte list \<Rightarrow> error + byte list" where
  "calculate_crc data = to_bytes_2_little (crc_register data)"

text \<open>
  \<^verbatim>\<open>_validate_crc\<close>: \<^verbatim>\<open>data[-2:]\<close> is \<open>drop (length data - 2) data\<close> and \<^verbatim>\<open>data[:-2]\<close> is
  \<open>take (length data - 2) data\<close>. An exception of \<^verbatim>\<open>_calculate_crc\<close> would propagate.
\<close>

definition validate_crc :: "byte list \<Rightarrow> error + bool" where
  "validate_crc data =
     (if length data < 3 then Inr False
      else (case calculate_crc (take (length data - 2) data) of
              Inl e \<Rightarrow> Inl e
            | Inr calculated_crc \<Rightarrow> Inr (drop (length data - 2) data = calculated_crc)))"

subsection \<open>The CRC-16 of the specification\<close>

text \<open>
  The bit-level contract of the specification, on a 16-bit register: initial value
  \<open>0xFFFF\<close>, each byte is XORed in, then eight times the register is shifted right and
  XORed with \<open>0xA001\<close> when the bit shifted out was set; no final XOR. The result is
  emitted as \<open>[crc & 0xFF, (crc >> 8) & 0xFF]\<close>.
\<close>

definition spec_crc_bit :: "16 word \<Rightarrow> 16 word" where
  "spec_crc_bit crc = (if bit crc 0 then drop_bit 1 crc XOR 0xA001 else drop_bit 1 crc)"

fun spec_crc16_from :: "16 word \<Rightarrow> byte list \<Rightarrow> 16 word" where
  "spec_crc16_from crc [] = crc"
| "spec_crc16_from crc (b # bs) =
     spec_crc16_from
       (spec_crc_bit (spec_crc_bit (spec_crc_bit (spec_crc_bit
          (spec_crc_bit (spec_crc_bit (spec_crc_bit (spec_crc_bit (crc XOR ucast b))))))))) bs"

definition spec_crc16 :: "byte list \<Rightarrow> 16 word" where
  "spec_crc16 data = spec_crc16_from 0xFFFF data"

definition spec_crc_emit :: "16 word \<Rightarrow> byte list" where
  "spec_crc_emit crc = [ucast (crc AND 0xFF), ucast (drop_bit 8 crc AND 0xFF)]"

section \<open>Data model\<close>

text \<open>
  The dataclasses \<^verbatim>\<open>ConnectionStats\<close> and \<^verbatim>\<open>SlaveConfig\<close>, field by field. The two
  timestamps are Python floats; the clock reading \<^verbatim>\<open>time.time()\<close> is a parameter of the
  dispatcher.
\<close>

record ConnectionStats =
  total_requests :: int
  successful_requests :: int
  failed_requests :: int
  last_request_time :: real
  connection_uptime :: real
  bytes_sent :: int
  bytes_received :: int

text \<open>\<^verbatim>\<open>ConnectionStats()\<close>: every field at its default.\<close>

definition ConnectionStats_new :: ConnectionStats where
  "ConnectionStats_new =
     \<lparr>total_requests = 0, successful_requests = 0, failed_requests = 0, last_request_time = 0,
      connection_uptime = 0, bytes_sent = 0, bytes_received = 0\<rparr>"

record SlaveConfig =
  slave_id :: int
  name :: string
  description :: string
  holding_registers :: "(int, int) fmap"
  input_registers :: "(int, int) fmap"
  coils :: "(int, bool) fmap"
  discrete_inputs :: "(int, bool) fmap"
  file_records :: "(int, (int, byte list) fmap) fmap"

text \<open>
  The part of \<^verbatim>\<open>ModbusIndustrialServer\<close> the request path touches: the two dictionaries,
  the configured ceiling \<^verbatim>\<open>config['server']['max_slaves']\<close>, whether the serial port is
  there and open, and the sequence of \<^verbatim>\<open>serial_port.write\<close> calls made so far. A slave's
  sub-stores are values of its record, so no two slaves share a dictionary.
\<close>

record server =
  slaves :: "(int, SlaveConfig) fmap"
  stats :: "(int, ConnectionStats) fmap"
  max_slaves :: int
  port_open :: bool
  port_written :: "byte list list"

section \<open>Slave store\<close>

text \<open>\<^verbatim>\<open>add_slave\<close>: the only check is the capacity check; then both dictionaries are assigned.\<close>

definition add_slave :: "server \<Rightarrow> SlaveConfig \<Rightarrow> error + server" where
  "add_slave s slave_config =
     (if int (fcard (fmdom (slaves s))) \<ge> max_slaves s then Inl ValueError
      else Inr (s\<lparr>slaves := fmupd (slave_id slave_config) slave_config (slaves s),
                   stats := fmupd (slave_id slave_config) ConnectionStats_new (stats s)\<rparr>))"

section \<open>Sending\<close>

text \<open>\<^verbatim>\<open>_send_response\<close> writes only when the port is there and open.\<close>

definition send_response :: "server \<Rightarrow> byte list \<Rightarrow> server" where
  "send_response s response =
     (if port_open s then s\<lparr>port_written := port_written s @ [response]\<rparr> else s)"

text \<open>
  The three lines every handler ends with:
  \<^verbatim>\<open>response_bytes = bytes(response_data); crc = self._calculate_crc(response_bytes);
  return response_bytes + crc\<close>.
\<close>

definition frame_with_crc :: "int list \<Rightarrow> error + byte list" where
  "frame_with_crc response_data =
     (case bytes_py response_data of
        Inl e \<Rightarrow> Inl e
      | Inr response_bytes \<Rightarrow>
          (case calculate_crc response_bytes of
             Inl e \<Rightarrow> Inl e
           | Inr crc \<Rightarrow> Inr (response_bytes @ crc)))"

text \<open>\<^verbatim>\<open>_send_exception_response\<close>: an exception while building the frame is only logged.\<close>

definition send_exception_response :: "server \<Rightarrow> int \<Rightarrow> int \<Rightarrow> int \<Rightarrow> server" where
  "send_exception_response s sid function_code exception_code =
     (case frame_with_crc [sid, function_code OR 0x80, exception_code] of
        Inl e \<Rightarrow> s
      | Inr full_response \<Rightarrow> send_response s full_response)"

section \<open>Request handlers\<close>

text \<open>
  A handler takes the server, the slave identifier \<open>sid\<close> (the source's \<^verbatim>\<open>slave_id\<close>,
  which names a field of \<open>SlaveConfig\<close> here) and the request, and returns the
  response (or \<open>None\<close>) with the server as it left it; \<open>Inl\<close> is an exception that leaves
  the handler (the \<^verbatim>\<open>self.slaves[slave_id]\<close> lookup is outside its \<^verbatim>\<open>try\<close>, and
  precedes every mutation).

  \<open>word_at request_data i\<close> is \<^verbatim>\<open>(request_data[i] << 8) | request_data[i + 1]\<close>; every use
  is behind the handler's length check.
\<close>

type_synonym handler = "server \<Rightarrow> int \<Rightarrow> byte list \<Rightarrow> error + (byte list option \<times> server)"

definition word_at :: "byte list \<Rightarrow> nat \<Rightarrow> int" where
  "word_at request_data i = push_bit 8 (uint (request_data ! i)) OR uint (request_data ! (i + 1))"

text \<open>The loop of the two register readers over \<^verbatim>\<open>range(start_address, start_address + quantity)\<close>.\<close>

definition read_registers :: "(int, int) fmap \<Rightarrow> int \<Rightarrow> int \<Rightarrow> int list" where
  "read_registers registers start_address quantity =
     concat (map (\<lambda>addr. case fmlookup registers addr of
                            Some v \<Rightarrow> [drop_bit 8 v AND 0xFF, v AND 0xFF]
                          | None \<Rightarrow> [0x00, 0x00])
                 [start_address .. start_address + quantity - 1])"

definition handle_read_holding_registers :: handler where
  "handle_read_holding_registers s sid request_data =
     (if length request_data < 8 then Inr (None, s)
      else
        let start_address = word_at request_data 2;
            quantity = word_at request_data 4
        in if quantity < 1 \<or> quantity > 125
           then Inr (None, send_exception_response s sid 0x03 0x03)
           else (case fmlookup (slaves s) sid of
                   None \<Rightarrow> Inl KeyError
                 | Some slave \<Rightarrow>
                     (case frame_with_crc ([sid, 0x03, quantity * 2] @
                             read_registers (holding_registers slave) start_address quantity) of
                        Inr response \<Rightarrow> Inr (Some response, s)
                      | Inl e \<Rightarrow> Inr (None, send_exception_response s sid 0x03 0x04))))"

definition handle_read_input_registers :: handler where
  "handle_read_input_registers s sid request_data =
     (if length request_data < 8 then Inr (None, s)
      else
        let start_address = word_at request_data 2;
            quantity = word_at request_data 4
        in if quantity < 1 \<or> quantity > 125
           then Inr (None, send_exception_response s sid 0x04 0x03)
           else (case fmlookup (slaves s) sid of
                   None \<Rightarrow> Inl KeyError
                 | Some slave \<Rightarrow>
                     (case frame_with_crc ([sid, 0x04, quantity * 2] @
                             read_registers (input_registers slave) start_address quantity) of
                        Inr response \<Rightarrow> Inr (Some response, s)
                      | Inl e \<Rightarrow> Inr (None, send_exception_response s sid 0x04 0x04))))"

text \<open>
  The nested loops of the two bit readers: for each \<open>byte_idx\<close> in \<open>range(byte_count)\<close>, the
  eight \<open>bit_idx\<close> are folded into \<open>byte_value\<close>.
\<close>

definition read_bits_byte :: "(int, bool) fmap \<Rightarrow> int \<Rightarrow> int \<Rightarrow> int \<Rightarrow> int" where
  "read_bits_byte bits start_address quantity byte_idx =
     foldl (\<lambda>byte_value bit_idx.
              let coil_addr = start_address + byte_idx * 8 + int bit_idx
              in if coil_addr < start_address + quantity \<and> fmlookup bits coil_addr = Some True
                 then byte_value OR push_bit bit_idx 1
                 else byte_value)
           0 [0 ..< 8]"

definition read_bits :: "(int, bool) fmap \<Rightarrow> int \<Rightarrow> int \<Rightarrow> int \<Rightarrow> int list" where
  "read_bits bits start_address quantity byte_count =
     map (read_bits_byte bits start_address quantity) [0 .. byte_count - 1]"

definition handle_read_coils :: handler where
  "handle_read_coils s sid request_data =
     (if length request_data < 8 then Inr (None, s)
      else
        let start_address = word_at request_data 2;
            quantity = word_at request_data 4
        in if quantity < 1 \<or> quantity > 2000
           then Inr (None, send_exception_response s sid 0x01 0x03)
           else (case fmlookup (slaves s) sid of
                   None \<Rightarrow> Inl KeyError
                 | Some slave \<Rightarrow>
                     let byte_count = (quantity + 7) div 8
                     in (case frame_with_crc ([sid, 0x01, byte_count] @
                               read_bits (coils slave) start_address quantity byte_count) of
                           Inr response \<Rightarrow> Inr (Some response, s)
                         | Inl e \<Rightarrow> Inr (None, send_exception_response s sid 0x01 0x04))))"

definition handle_read_discrete_inputs :: handler where
  "handle_read_discrete_inputs s sid request_data =
     (if length request_data < 8 then Inr (None, s)
      else
        let start_address = word_at request_data 2;
            quantity = word_at request_data 4
        in if quantity < 1 \<or> quantity > 2000
           then Inr (None, send_exception_response s sid 0x02 0x03)
           else (case fmlookup (slaves s) sid of
                   None \<Rightarrow> Inl KeyError
                 | Some slave \<Rightarrow>
                     let byte_count = (quantity + 7) div 8
                     in (case frame_with_crc ([sid, 0x02, byte_count] @
                               read_bits (discrete_inputs slave) start_address quantity byte_count) of
                           Inr response \<Rightarrow> Inr (Some response, s)
                         | Inl e \<Rightarrow> Inr (None, send_exception_response s sid 0x02 0x04))))"

definition handle_write_single_coil :: handler where
  "handle_write_single_coil s sid request_data =
     (if length request_data < 8 then Inr (None, s)
      else
        let coil_address = word_at request_data 2;
            coil_value = word_at request_data 4
        in if coil_value \<notin> set [0x0000, 0xFF00]
           then Inr (None, send_exception_response s sid 0x05 0x03)
           else (case fmlookup (slaves s) sid of
                   None \<Rightarrow> Inl KeyError
                 | Some slave \<Rightarrow>
                     let s' = s\<lparr>slaves := fmupd sid
                                (slave\<lparr>coils := fmupd coil_address (coil_value = 0xFF00) (coils slave)\<rparr>)
                                (slaves s)\<rparr>;
                         response_bytes = take (length request_data - 2) request_data
                     in (case calculate_crc response_bytes of
                           Inr crc \<Rightarrow> Inr (Some (response_bytes @ crc), s')
                         | Inl e \<Rightarrow> Inr (None, send_exception_response s' sid 0x05 0x04))))"

definition handle_write_single_register :: handler where
  "handle_write_single_register s sid request_data =
     (if length request_data < 8 then Inr (None, s)
      else
        let register_address = word_at request_data 2;
            register_value = word_at request_data 4
        in (case fmlookup (slaves s) sid of
              None \<Rightarrow> Inl KeyError
            | Some slave \<Rightarrow>
                let s' = s\<lparr>slaves := fmupd sid
                           (slave\<lparr>holding_registers :=
                              fmupd register_address register_value (holding_registers slave)\<rparr>)
                           (slaves s)\<rparr>;
                    response_bytes = take (length request_data - 2) request_data
                in (case calculate_crc response_bytes of
                      Inr crc \<Rightarrow> Inr (Some (response_bytes @ crc), s')
                    | Inl e \<Rightarrow> Inr (None, send_exception_response s' sid 0x06 0x04))))"

text \<open>
  The loop of \<^verbatim>\<open>_handle_write_multiple_coils\<close> over \<open>range(quantity)\<close>. The dictionary is
  written in place, so when \<^verbatim>\<open>coil_data[byte_idx]\<close> raises IndexError the coils written so
  far stay written: the loop returns the dictionary as it is, and whether it completed.
\<close>

fun write_coils :: "byte list \<Rightarrow> int \<Rightarrow> nat list \<Rightarrow> (int, bool) fmap \<Rightarrow> (int, bool) fmap \<times> bool" where
  "write_coils coil_data start_address [] cs = (cs, True)"
| "write_coils coil_data start_address (i # is) cs =
     (let byte_idx = i div 8;
          bit_idx = i mod 8;
          coil_address = start_address + int i
      in if byte_idx < length coil_data
         then write_coils coil_data start_address is
                (fmupd coil_address (uint (coil_data ! byte_idx) AND push_bit bit_idx 1 \<noteq> 0) cs)
         else (cs, False))"

definition handle_write_multiple_coils :: handler where
  "handle_write_multiple_coils s sid request_data =
     (if length request_data < 9 then Inr (None, s)
      else
        let start_address = word_at request_data 2;
            quantity = word_at request_data 4;
            byte_count = uint (request_data ! 6)
        in if quantity < 1 \<or> quantity > 1968 \<or> byte_count \<noteq> (quantity + 7) div 8
           then Inr (None, send_exception_response s sid 0x0F 0x03)
           else (case fmlookup (slaves s) sid of
                   None \<Rightarrow> Inl KeyError
                 | Some slave \<Rightarrow>
                     let coil_data = take (nat byte_count) (drop 7 request_data);
                         (cs, completed) =
                            write_coils coil_data start_address [0 ..< nat quantity] (coils slave);
                         s' = s\<lparr>slaves := fmupd sid (slave\<lparr>coils := cs\<rparr>) (slaves s)\<rparr>
                     in if \<not> completed then Inr (None, send_exception_response s' sid 0x0F 0x04)
                        else (case frame_with_crc
                                     ([sid, 0x0F] @ map uint (take 4 (drop 2 request_data))) of
                                Inr response \<Rightarrow> Inr (Some response, s')
                              | Inl e \<Rightarrow> Inr (None, send_exception_response s' sid 0x0F 0x04))))"

text \<open>The loop of \<^verbatim>\<open>_handle_write_multiple_registers\<close>, with the same in-place writes.\<close>

fun write_registers :: "byte list \<Rightarrow> int \<Rightarrow> nat list \<Rightarrow> (int, int) fmap \<Rightarrow> (int, int) fmap \<times> bool" where
  "write_registers register_data start_address [] rs = (rs, True)"
| "write_registers register_data start_address (i # is) rs =
     (let register_address = start_address + int i
      in if i * 2 + 1 < length register_data
         then write_registers register_data start_address is
                (fmupd register_address
                   (push_bit 8 (uint (register_data ! (i * 2))) OR uint (register_data ! (i * 2 + 1))) rs)
         else (rs, False))"

definition handle_write_multiple_registers :: handler where
  "handle_write_multiple_registers s sid request_data =
     (if length request_data < 9 then Inr (None, s)
      else
        let start_address = word_at request_data 2;
            quantity = word_at request_data 4;
            byte_count = uint (request_data ! 6)
        in if quantity < 1 \<or> quantity > 123 \<or> byte_count \<noteq> quantity * 2
           then Inr (None, send_exception_response s sid 0x10 0x03)
           else (case fmlookup (slaves s) sid of
                   None \<Rightarrow> Inl KeyError
                 | Some slave \<Rightarrow>
                     let register_data = take (nat byte_count) (drop 7 request_data);
                         (rs, completed) =
                            write_registers register_data start_address [0 ..< nat quantity]
                              (holding_registers slave);
                         s' = s\<lparr>slaves := fmupd sid (slave\<lparr>holding_registers := rs\<rparr>) (slaves s)\<rparr>
                     in if \<not> completed then Inr (None, send_exception_response s' sid 0x10 0x04)
                        else (case frame_with_crc
                                     ([sid, 0x10] @ map uint (take 4 (drop 2 request_data))) of
                                Inr response \<Rightarrow> Inr (Some response, s')
                              | Inl e \<Rightarrow> Inr (None, send_exception_response s' sid 0x10 0x04))))"

text \<open>
  \<^verbatim>\<open>_handle_read_file_records\<close>. The stored bytes are cut or padded with zero bytes to
  \<open>record_length * 2\<close> bytes; the two length fields then go through \<^verbatim>\<open>bytes(...)\<close> with the
  rest of the response.
\<close>

definition fit_file_data :: "byte list \<Rightarrow> int \<Rightarrow> byte list" where
  "fit_file_data file_data record_length =
     (if int (length file_data) > record_length * 2
      then take (nat (record_length * 2)) file_data
      else if int (length file_data) < record_length * 2
      then file_data @ replicate (nat (record_length * 2 - int (length file_data))) 0x00
      else file_data)"

definition lookup_file_record :: "SlaveConfig \<Rightarrow> int \<Rightarrow> int \<Rightarrow> byte list option" where
  "lookup_file_record slave file_number record_number =
     (case fmlookup (file_records slave) file_number of
        None \<Rightarrow> None
      | Some records \<Rightarrow> fmlookup records record_number)"

definition handle_read_file_records :: handler where
  "handle_read_file_records s sid request_data =
     (if length request_data < 10 then Inr (None, s)
      else
        let byte_count = uint (request_data ! 2)
        in if byte_count \<noteq> 7
           then Inr (None, send_exception_response s sid 0x14 0x03)
           else
             let reference_type = uint (request_data ! 3);
                 file_number = word_at request_data 4;
                 record_number = word_at request_data 6;
                 record_length = word_at request_data 8
             in if reference_type \<noteq> 6
                then Inr (None, send_exception_response s sid 0x14 0x03)
                else (case fmlookup (slaves s) sid of
                        None \<Rightarrow> Inl KeyError
                      | Some slave \<Rightarrow>
                          (case (case lookup_file_record slave file_number record_number of
                                   Some stored \<Rightarrow>
                                     let file_data = fit_file_data stored record_length;
                                         file_response_length = int (length file_data) + 1;
                                         response_data_length = file_response_length + 1
                                     in frame_with_crc
                                          ([sid, 0x14, response_data_length, file_response_length,
                                            reference_type] @ map uint file_data)
                                 | None \<Rightarrow>
                                     let file_response_length = 1;
                                         response_data_length = 2
                                     in frame_with_crc
                                          [sid, 0x14, response_data_length, file_response_length,
                                           reference_type]) of
                             Inr response \<Rightarrow> Inr (Some response, s)
                           | Inl e \<Rightarrow> Inr (None, send_exception_response s sid 0x14 0x04))))"

section \<open>Frame reader\<close>


section \<open>Request dispatcher\<close>

text \<open>The \<^verbatim>\<open>if\<close>/\<^verbatim>\<open>elif\<close> chain on the function code, in the source's order.\<close>

definition handler_for :: "int \<Rightarrow> handler option" where
  "handler_for function_code =
     (if function_code = 0x03 then Some handle_read_holding_registers
      else if function_code = 0x04 then Some handle_read_input_registers
      else if function_code = 0x01 then Some handle_read_coils
      else if function_code = 0x02 then Some handle_read_discrete_inputs
      else if function_code = 0x05 then Some handle_write_single_coil
      else if function_code = 0x06 then Some handle_write_single_register
      else if function_code = 0x0F then Some handle_write_multiple_coils
      else if function_code = 0x10 then Some handle_write_multiple_registers
      else if function_code = 0x14 then Some handle_read_file_records
      else None)"

text \<open>The statistics update at the head of \<^verbatim>\<open>_process_request\<close>.\<close>

definition count_request :: "real \<Rightarrow> server \<Rightarrow> int \<Rightarrow> byte list \<Rightarrow> server" where
  "count_request now s sid request_data =
     (case fmlookup (stats s) sid of
        None \<Rightarrow> s
      | Some st \<Rightarrow>
          s\<lparr>stats := fmupd sid
               (st\<lparr>total_requests := total_requests st + 1,
                   last_request_time := now,
                   bytes_received := bytes_received st + int (length request_data)\<rparr>)
               (stats s)\<rparr>)"

text \<open>
  The tail of \<^verbatim>\<open>_process_request\<close>: \<^verbatim>\<open>if response:\<close> holds for a response that is
  neither \<open>None\<close> nor empty.
\<close>

definition count_outcome :: "server \<Rightarrow> int \<Rightarrow> byte list option \<Rightarrow> server" where
  "count_outcome s sid response =
     (if response \<noteq> None \<and> response \<noteq> Some []
      then
        let s' = send_response s (the response)
        in (case fmlookup (stats s') sid of
              None \<Rightarrow> s'
            | Some st \<Rightarrow>
                s'\<lparr>stats := fmupd sid
                      (st\<lparr>successful_requests := successful_requests st + 1,
                          bytes_sent := bytes_sent st + int (length (the response))\<rparr>)
                      (stats s')\<rparr>)
      else
        (case fmlookup (stats s) sid of
           None \<Rightarrow> s
         | Some st \<Rightarrow>
             s\<lparr>stats := fmupd sid (st\<lparr>failed_requests := failed_requests st + 1\<rparr>) (stats s)\<rparr>))"

text \<open>The \<^verbatim>\<open>except\<close> clause of \<^verbatim>\<open>_process_request\<close>.\<close>

definition server_device_failure :: "server \<Rightarrow> byte list \<Rightarrow> server" where
  "server_device_failure s request_data =
     (if length request_data \<ge> 2
      then send_exception_response s (uint (request_data ! 0)) (uint (request_data ! 1)) 0x04
      else s)"

text \<open>
  \<^verbatim>\<open>_process_request\<close>, with the clock reading \<open>now\<close>. The order is the source's: length,
  statistics, slave lookup, CRC, function code.
\<close>

definition process_request :: "real \<Rightarrow> server \<Rightarrow> byte list \<Rightarrow> server" where
  "process_request now s request_data =
     (if length request_data < 4 then s
      else
        let sid = uint (request_data ! 0);
            function_code = uint (request_data ! 1);
            s1 = count_request now s sid request_data
        in if fmlookup (slaves s1) sid = None
           then send_exception_response s1 sid function_code 0x0B
           else (case validate_crc request_data of
                   Inl e \<Rightarrow> server_device_failure s1 request_data
                 | Inr valid \<Rightarrow>
                     if \<not> valid then s1
                     else (case handler_for function_code of
                             None \<Rightarrow> send_exception_response s1 sid function_code 0x01
                           | Some handle \<Rightarrow>
                               (case handle s1 sid request_data of
                                  Inl e \<Rightarrow> server_device_failure s1 request_data
                                | Inr (response, s2) \<Rightarrow> count_outcome s2 sid response))))"

section \<open>Exception responses of the specification\<close>

text \<open>
  The exception response as the specification lays it out: the slave identifier, the
  request's function code with bit 7 set, the one-byte exception code, then the CRC of
  these three bytes, low byte first.
\<close>

definition exception_frame :: "int \<Rightarrow> int \<Rightarrow> int \<Rightarrow> byte list" where
  "exception_frame sid function_code exception_code =
     (let body = [word_of_int sid, word_of_int function_code OR 0x80, word_of_int exception_code]
      in body @ spec_crc_emit (spec_crc16 body))"

section \<open>The example configuration\<close>

text \<open>
  \<^verbatim>\<open>create_example_slave()\<close>, and the server \<^verbatim>\<open>main()\<close> builds from it with the default
  configuration (\<open>max_slaves = 10\<close>), once the port is open.
\<close>

definition create_example_slave :: SlaveConfig where
  "create_example_slave =
     \<lparr>slave_id = 1,
      name = ''Example Industrial Device'',
      description = ''Simulated industrial device for testing'',
      holding_registers =
        fmupd 2014 16256 (fmupd 2015 17095 (fmupd 2016 1000 (fmupd 2017 2500 (fmupd 2018 750 fmempty)))),
      input_registers = fmupd 3001 25 (fmupd 3002 1013 (fmupd 3003 60 fmempty)),
      coils = fmupd 1 True (fmupd 2 False (fmupd 3 True fmempty)),
      discrete_inputs = fmupd 10001 True (fmupd 10002 False (fmupd 10003 True fmempty)),
      file_records =
        fmupd 1
          (fmupd 0 (map of_char ''INDUSTRIAL_DEVICE_V1.0'' @ replicate 8 0)
            (fmupd 1 (map of_char ''SERIAL_12345678'' @ replicate 12 0)
              (fmupd 2 (map of_char ''CONFIG_DATA_HERE'' @ replicate 12 0) fmempty)))
          fmempty\<rparr>"

definition example_server :: server where
  "example_server =
     \<lparr>slaves = fmupd 1 create_example_slave fmempty,
      stats = fmupd 1 ConnectionStats_new fmempty,
      max_slaves = 10,
      port_open = True,
      port_written = []\<rparr>"

section \<open>The CRC codec computes the CRC-16 of the specification\<close>

text \<open>
  The register of \<^verbatim>\<open>_calculate_crc\<close> is an unbounded integer; it never leaves sixteen
  bits, because every step of it is the step of the specification's 16-bit register.
\<close>

lemma uint_and_one_iff: "(uint (w :: 16 word) AND 0x0001 \<noteq> 0) = bit w 0"
proof -
  have "(uint w AND 1 \<noteq> 0) = bit (uint w) 0"
    by (simp add: and_one_eq bit_0 mod_2_eq_odd)
  then show ?thesis by (simp add: bit_uint_iff)
qed

lemma take_bit_uint16: "take_bit 16 (uint (w :: 16 word)) = uint w"
  by (rule bit_eqI) (auto simp add: bit_simps dest: bit_imp_le_length)

lemma crc_shift_uint: "crc_shift (uint w) = uint (spec_crc_bit w)"
  unfolding crc_shift_def spec_crc_bit_def
  using uint_and_one_iff [of w]
  by (simp add: uint_xor unsigned_drop_bit_eq take_bit_uint16 del: and_one_eq)

lemma crc_update_uint:
  "crc_update (uint w) b =
     uint (spec_crc_bit (spec_crc_bit (spec_crc_bit (spec_crc_bit
       (spec_crc_bit (spec_crc_bit (spec_crc_bit (spec_crc_bit (w XOR ucast b)))))))))"
proof -
  have "uint w XOR uint b = uint (w XOR ucast b)"
    by (simp add: uint_xor uint_up_ucast is_up)
  then show ?thesis
    by (simp add: crc_update_def eval_nat_numeral crc_shift_uint)
qed

lemma foldl_crc_update: "foldl crc_update (uint w) data = uint (spec_crc16_from w data)"
  by (induction data arbitrary: w) (simp_all add: crc_update_uint)

lemma crc_register_spec: "crc_register data = uint (spec_crc16 data)"
proof -
  have "(0xFFFF :: int) = uint (0xFFFF :: 16 word)"
    by simp
  then show ?thesis
    unfolding crc_register_def spec_crc16_def by (metis foldl_crc_update)
qed

lemma to_bytes_2_little_uint: "to_bytes_2_little (uint (w :: 16 word)) = Inr (spec_crc_emit w)"
proof -
  have "uint w < 65536"
    using uint_bounded [of w] by simp
  moreover have "(word_of_int (uint w AND 0xFF) :: byte) = ucast (w AND 0xFF)"
    by (rule bit_word_eqI) (simp add: bit_simps)
  moreover have "(word_of_int (drop_bit 8 (uint w) AND 0xFF) :: byte) = ucast (drop_bit 8 w AND 0xFF)"
    by (rule bit_word_eqI) (simp add: bit_simps)
  ultimately show ?thesis
    by (simp add: to_bytes_2_little_def spec_crc_emit_def)
qed

lemma calculate_crc_Inr: "calculate_crc data = Inr (spec_crc_emit (spec_crc16 data))"
  by (simp add: calculate_crc_def crc_register_spec to_bytes_2_little_uint)

lemma validate_crc_Inr:
  "validate_crc data =
     Inr (3 \<le> length data \<and>
          drop (length data - 2) data = spec_crc_emit (spec_crc16 (take (length data - 2) data)))"
  by (simp add: validate_crc_def calculate_crc_Inr)

text \<open>
  Claim C2. For every byte sequence \<open>data\<close>, \<^verbatim>\<open>_calculate_crc\<close> returns (it does not raise) the
  two bytes \<open>[crc & 0xFF, (crc >> 8) & 0xFF]\<close>, low byte first, of the CRC-16 the
  specification's bit-level loop computes (polynomial \<open>0xA001\<close>, initial value \<open>0xFFFF\<close>, no
  final XOR); and for every frame of at least three bytes \<^verbatim>\<open>_validate_crc\<close> returns True
  exactly when the last two bytes of the frame are, as a byte sequence, what
  \<^verbatim>\<open>_calculate_crc\<close> returns on the frame without its last two bytes.
\<close>

theorem crc_codec_refines_spec:
  "calculate_crc data = Inr (spec_crc_emit (spec_crc16 data)) \<and>
   (3 \<le> length frame \<longrightarrow>
      validate_crc frame =
        Inr (calculate_crc (take (length frame - 2) frame) = Inr (drop (length frame - 2) frame)))"
  by (auto simp add: calculate_crc_Inr validate_crc_Inr)

theorem crc_codec_refines_spec_witness:
  "calculate_crc [0x01, 0x03, 0x07, 0xDE, 0x00, 0x02] = Inr [0xA5, 0x45] \<and>
   validate_crc [0x01, 0x03, 0x07, 0xDE, 0x00, 0x02, 0xA5, 0x45] = Inr True \<and>
   validate_crc [0x01, 0x03, 0x07, 0xDE, 0x00, 0x02, 0x24, 0x0A] = Inr False"
proof -
  have e: "spec_crc_emit (spec_crc16 [0x01, 0x03, 0x07, 0xDE, 0x00, 0x02]) = [0xA5, 0x45]"
    by code_simp
  have l: "3 \<le> length [0x01, 0x03, 0x07, 0xDE, 0x00, 0x02, 0xA5, 0x45 :: byte]"
          "3 \<le> length [0x01, 0x03, 0x07, 0xDE, 0x00, 0x02, 0x24, 0x0A :: byte]"
    by simp_all
  show ?thesis
    using crc_codec_refines_spec [of "[0x01, 0x03, 0x07, 0xDE, 0x00, 0x02]"
            "[0x01, 0x03, 0x07, 0xDE, 0x00, 0x02, 0xA5, 0x45]"]
          crc_codec_refines_spec [of "[0x01, 0x03, 0x07, 0xDE, 0x00, 0x02]"
            "[0x01, 0x03, 0x07, 0xDE, 0x00, 0x02, 0x24, 0x0A]"]
          e l
    by simp
qed

section \<open>Adding a slave\<close>

text \<open>
  Claim C3, as the code has it. \<^verbatim>\<open>add_slave\<close> raises its capacity error (a ValueError,
  before anything is assigned, so slaves and statistics stay as they were) whenever the
  number of configured slaves has reached \<open>max_slaves\<close>. It has no identifier-in-use
  error: below the ceiling it succeeds for every identifier, the slave under that
  identifier is the new configuration, its statistics are a fresh \<^verbatim>\<open>ConnectionStats()\<close>,
  and every other slave and its statistics are unchanged.
\<close>

theorem add_slave_capacity_or_replace:
  "(max_slaves s \<le> int (fcard (fmdom (slaves s))) \<longrightarrow> add_slave s c = Inl ValueError) \<and>
   (int (fcard (fmdom (slaves s))) < max_slaves s \<longrightarrow>
      (\<exists>s'. add_slave s c = Inr s' \<and>
            fmlookup (slaves s') (slave_id c) = Some c \<and>
            fmlookup (stats s') (slave_id c) = Some ConnectionStats_new \<and>
            fmdom (slaves s') = finsert (slave_id c) (fmdom (slaves s)) \<and>
            (\<forall>k. k \<noteq> slave_id c \<longrightarrow>
                 fmlookup (slaves s') k = fmlookup (slaves s) k \<and>
                 fmlookup (stats s') k = fmlookup (stats s) k) \<and>
            max_slaves s' = max_slaves s \<and> port_open s' = port_open s \<and>
            port_written s' = port_written s))"
  by (simp add: add_slave_def)

theorem add_slave_capacity_or_replace_witness:
  "add_slave (example_server\<lparr>max_slaves := 1\<rparr>) create_example_slave = Inl ValueError \<and>
   (\<exists>s'. add_slave example_server create_example_slave = Inr s' \<and>
         fmlookup (stats s') 1 = Some ConnectionStats_new)"
proof -
  have full: "max_slaves (example_server\<lparr>max_slaves := 1\<rparr>)
                \<le> int (fcard (fmdom (slaves (example_server\<lparr>max_slaves := 1\<rparr>))))"
    by (simp add: example_server_def fcard_finsert_if fcard_fempty)
  have room: "int (fcard (fmdom (slaves example_server))) < max_slaves example_server"
    by (simp add: example_server_def fcard_finsert_if fcard_fempty)
  have id1: "slave_id create_example_slave = 1"
    by (simp add: create_example_slave_def)
  from add_slave_capacity_or_replace [of "example_server\<lparr>max_slaves := 1\<rparr>" create_example_slave] full
  have "add_slave (example_server\<lparr>max_slaves := 1\<rparr>) create_example_slave = Inl ValueError"
    by blast
  moreover from add_slave_capacity_or_replace [of example_server create_example_slave] room id1
  have "\<exists>s'. add_slave example_server create_example_slave = Inr s' \<and>
         fmlookup (stats s') 1 = Some ConnectionStats_new"
    by auto
  ultimately show ?thesis by blast
qed

text \<open>
  The claim as written fails: slave 1 is configured in the example server, and adding a
  configuration with identifier 1 again is no error; it replaces the slave and resets its
  statistics.
\<close>

theorem add_slave_id_in_use_counterexample:
  "fmlookup (slaves example_server) (slave_id create_example_slave) = Some create_example_slave \<and>
   add_slave example_server (create_example_slave\<lparr>name := ''Replacement''\<rparr>) =
     Inr (example_server
            \<lparr>slaves := fmupd 1 (create_example_slave\<lparr>name := ''Replacement''\<rparr>) (slaves example_server),
             stats := fmupd 1 ConnectionStats_new (stats example_server)\<rparr>)"
  by (simp add: add_slave_def example_server_def create_example_slave_def
        fcard_finsert_if fcard_fempty)

section \<open>Building and sending frames\<close>

lemma bytes_py_Inr:
  "list_all (\<lambda>x. 0 \<le> x \<and> x < 256) xs \<Longrightarrow> bytes_py xs = Inr (map word_of_int xs)"
  by (simp add: bytes_py_def)

lemma frame_with_crc_Inr:
  "list_all (\<lambda>x. 0 \<le> x \<and> x < 256) xs \<Longrightarrow>
     frame_with_crc xs = Inr (map word_of_int xs @ spec_crc_emit (spec_crc16 (map word_of_int xs)))"
  by (simp add: frame_with_crc_def bytes_py_def calculate_crc_Inr)

lemma frame_with_crc_Inl:
  "\<not> list_all (\<lambda>x. 0 \<le> x \<and> x < 256) xs \<Longrightarrow> frame_with_crc xs = Inl ValueError"
  by (simp add: frame_with_crc_def bytes_py_def)

lemma uint_byte_less: "uint (b :: byte) < 256"
  using uint_bounded [of b] by simp

lemma or_0x80_range:
  fixes fc :: int
  assumes "0 \<le> fc" "fc < 256"
  shows "0 \<le> fc OR 0x80" "fc OR 0x80 < 256"
proof -
  show "0 \<le> fc OR 0x80" using assms by simp
  have "fc OR 0x80 < 2 ^ 8"
    by (rule OR_upper) (use assms in simp_all)
  then show "fc OR 0x80 < 256" by simp
qed

lemma word_of_int_or_0x80: "(word_of_int (fc OR 0x80) :: byte) = word_of_int fc OR 0x80"
  by (rule bit_word_eqI) (auto simp add: bit_simps)

text \<open>
  \<^verbatim>\<open>_send_exception_response\<close> builds the exception response of the specification, for
  every slave identifier, function code and exception code that fit a byte.
\<close>

lemma send_exception_response_eq:
  assumes "0 \<le> sid" "sid < 256" "0 \<le> fc" "fc < 256" "0 \<le> code" "code < 256"
  shows "send_exception_response s sid fc code = send_response s (exception_frame sid fc code)"
  using assms or_0x80_range [of fc]
  by (simp add: send_exception_response_def frame_with_crc_Inr exception_frame_def Let_def
        word_of_int_or_0x80)

lemma count_request_fields [simp]:
  "slaves (count_request now s sid f) = slaves s"
  "port_open (count_request now s sid f) = port_open s"
  "port_written (count_request now s sid f) = port_written s"
  "max_slaves (count_request now s sid f) = max_slaves s"
  by (simp_all add: count_request_def split: option.split)

lemma send_response_fields [simp]:
  "slaves (send_response s r) = slaves s"
  "stats (send_response s r) = stats s"
  "port_open (send_response s r) = port_open s"
  "max_slaves (send_response s r) = max_slaves s"
  "port_written (send_response s r) = (if port_open s then port_written s @ [r] else port_written s)"
  by (simp_all add: send_response_def)

lemma count_outcome_None_fields [simp]:
  "slaves (count_outcome s sid None) = slaves s"
  "port_open (count_outcome s sid None) = port_open s"
  "port_written (count_outcome s sid None) = port_written s"
  "max_slaves (count_outcome s sid None) = max_slaves s"
  by (simp_all add: count_outcome_def split: option.split)

lemma count_outcome_Some_fields [simp]:
  "r \<noteq> [] \<Longrightarrow> slaves (count_outcome s sid (Some r)) = slaves s"
  "r \<noteq> [] \<Longrightarrow> port_open (count_outcome s sid (Some r)) = port_open s"
  "r \<noteq> [] \<Longrightarrow> port_written (count_outcome s sid (Some r)) =
      (if port_open s then port_written s @ [r] else port_written s)"
  "r \<noteq> [] \<Longrightarrow> max_slaves (count_outcome s sid (Some r)) = max_slaves s"
  by (simp_all add: count_outcome_def Let_def split: option.split)

lemma send_exception_response_fields [simp]:
  "slaves (send_exception_response s sid fc code) = slaves s"
  "stats (send_exception_response s sid fc code) = stats s"
  "port_open (send_exception_response s sid fc code) = port_open s"
  "max_slaves (send_exception_response s sid fc code) = max_slaves s"
  by (simp_all add: send_exception_response_def split: sum.split)

lemma count_outcome_fields [simp]:
  "slaves (count_outcome s sid r) = slaves s"
  "port_open (count_outcome s sid r) = port_open s"
  "max_slaves (count_outcome s sid r) = max_slaves s"
  by (simp_all add: count_outcome_def Let_def split: option.split)

lemma word_at_nonneg: "0 \<le> word_at f i"
  by (simp add: word_at_def)

section \<open>The dispatcher on frames whose CRC does not verify\<close>

lemma validate_crc_False_iff:
  "(validate_crc f = Inr False) =
     (calculate_crc (take (length f - 2) f) \<noteq> Inr (drop (length f - 2) f) \<or> length f < 3)"
  by (auto simp add: validate_crc_Inr calculate_crc_Inr)

text \<open>
  Claim C1, as the code has it. Take a frame whose trailing two bytes are not the CRC-16 of
  the bytes before them. If the frame is shorter than four bytes, or the addressed slave is
  configured, the dispatcher writes nothing to the port and leaves every slave's data as it
  was. If the frame has at least four bytes and the addressed slave is not configured, the
  slave lookup comes before the CRC check: the dispatcher writes exactly one frame, the
  exception response with code \<open>0x0B\<close> (when the port is open).
\<close>

theorem crc_invalid_frame:
  assumes "calculate_crc (take (length request_data - 2) request_data)
             \<noteq> Inr (drop (length request_data - 2) request_data)"
  shows "(length request_data < 4 \<or> fmlookup (slaves s) (uint (request_data ! 0)) \<noteq> None \<longrightarrow>
            port_written (process_request now s request_data) = port_written s \<and>
            slaves (process_request now s request_data) = slaves s) \<and>
         (4 \<le> length request_data \<and> fmlookup (slaves s) (uint (request_data ! 0)) = None \<longrightarrow>
            port_written (process_request now s request_data) =
              (if port_open s
               then port_written s @
                      [exception_frame (uint (request_data ! 0)) (uint (request_data ! 1)) 0x0B]
               else port_written s) \<and>
            slaves (process_request now s request_data) = slaves s)"
proof -
  have invalid: "validate_crc request_data = Inr False"
    using assms by (simp add: validate_crc_False_iff)
  have exc: "send_exception_response t (uint (request_data ! 0)) (uint (request_data ! 1)) 0x0B =
          send_response t (exception_frame (uint (request_data ! 0)) (uint (request_data ! 1)) 0x0B)" for t
    by (rule send_exception_response_eq) (simp_all add: uint_byte_less)
  show ?thesis
    by (auto simp add: process_request_def Let_def invalid exc [unfolded One_nat_def])
qed

theorem crc_invalid_frame_witness:
  "port_written (process_request 0 example_server [0x01, 0x03, 0x07, 0xDE, 0x00, 0x02, 0x00, 0x00]) = [] \<and>
   slaves (process_request 0 example_server [0x01, 0x03, 0x07, 0xDE, 0x00, 0x02, 0x00, 0x00])
     = slaves example_server \<and>
   port_written (process_request 0 example_server [0x02, 0x03, 0x00, 0x00, 0x00, 0x01, 0x00, 0x00]) =
     [[0x02, 0x83, 0x0B, 0xF0, 0xF7]]"
proof -
  have bad1: "calculate_crc (take (length [0x01, 0x03, 0x07, 0xDE, 0x00, 0x02, 0x00, 0x00 :: byte] - 2)
                 [0x01, 0x03, 0x07, 0xDE, 0x00, 0x02, 0x00, 0x00])
              \<noteq> Inr (drop (length [0x01, 0x03, 0x07, 0xDE, 0x00, 0x02, 0x00, 0x00 :: byte] - 2)
                 [0x01, 0x03, 0x07, 0xDE, 0x00, 0x02, 0x00, 0x00])"
    by code_simp
  have bad2: "calculate_crc (take (length [0x02, 0x03, 0x00, 0x00, 0x00, 0x01, 0x00, 0x00 :: byte] - 2)
                 [0x02, 0x03, 0x00, 0x00, 0x00, 0x01, 0x00, 0x00])
              \<noteq> Inr (drop (length [0x02, 0x03, 0x00, 0x00, 0x00, 0x01, 0x00, 0x00 :: byte] - 2)
                 [0x02, 0x03, 0x00, 0x00, 0x00, 0x01, 0x00, 0x00])"
    by code_simp
  have e: "exception_frame 2 3 0x0B = [0x02, 0x83, 0x0B, 0xF0, 0xF7]"
    by code_simp
  have srv: "fmlookup (slaves example_server) 1 \<noteq> None" "fmlookup (slaves example_server) 2 = None"
    "port_open example_server" "port_written example_server = []"
    by (simp_all add: example_server_def)
  show ?thesis
    using crc_invalid_frame [OF bad1, of example_server 0] crc_invalid_frame [OF bad2, of example_server 0]
      e srv
    by simp
qed

text \<open>
  The claim as written fails twice. A frame for slave 2, which the example server does not
  have, with a wrong CRC is answered with \<open>02 83 0B F0 F7\<close>; and a frame for slave 1, which
  it has, with a wrong CRC leaves the failed counter of slave 1 at 0.
\<close>

theorem crc_invalid_frame_counterexample:
  "calculate_crc (take 6 [0x02, 0x03, 0x00, 0x00, 0x00, 0x01, 0x00, 0x00])
      \<noteq> Inr (drop 6 [0x02, 0x03, 0x00, 0x00, 0x00, 0x01, 0x00, 0x00]) \<and>
   fmlookup (slaves example_server) 2 = None \<and>
   port_written (process_request 0 example_server [0x02, 0x03, 0x00, 0x00, 0x00, 0x01, 0x00, 0x00]) =
     [[0x02, 0x83, 0x0B, 0xF0, 0xF7]] \<and>
   calculate_crc (take 6 [0x01, 0x03, 0x07, 0xDE, 0x00, 0x02, 0x00, 0x00])
      \<noteq> Inr (drop 6 [0x01, 0x03, 0x07, 0xDE, 0x00, 0x02, 0x00, 0x00]) \<and>
   fmlookup (slaves example_server) 1 = Some create_example_slave \<and>
   map_option failed_requests (fmlookup (stats example_server) 1) = Some 0 \<and>
   map_option failed_requests
     (fmlookup (stats (process_request 0 example_server [0x01, 0x03, 0x07, 0xDE, 0x00, 0x02, 0x00, 0x00])) 1)
     = Some 0"
  by code_simp

section \<open>The dispatcher on frames whose CRC verifies\<close>

lemma process_request_valid:
  assumes "4 \<le> length f" and "fmlookup (slaves s) (uint (f ! 0)) \<noteq> None"
    and "validate_crc f = Inr True"
  shows "process_request now s f =
           (case handler_for (uint (f ! 1)) of
              None \<Rightarrow> send_exception_response (count_request now s (uint (f ! 0)) f)
                        (uint (f ! 0)) (uint (f ! 1)) 0x01
            | Some handle \<Rightarrow>
                (case handle (count_request now s (uint (f ! 0)) f) (uint (f ! 0)) f of
                   Inl e \<Rightarrow> server_device_failure (count_request now s (uint (f ! 0)) f) f
                 | Inr (response, s2) \<Rightarrow> count_outcome s2 (uint (f ! 0)) response))"
  using assms by (auto simp add: process_request_def Let_def simp del: One_nat_def)















text \<open>
  The branch of the dispatcher for any other function code is behind the frame reader,
  which hands on no such frame. Called on \<open>01 07 41 E2\<close> all the same, the dispatcher answers
  with the exception \<open>0x01\<close> and counts the request in \<open>total_requests\<close> only.
\<close>

lemma unsupported_function_direct_call:
  "validate_crc [0x01, 0x07, 0x41, 0xE2] = Inr True \<and>
   map_option (\<lambda>st. (total_requests st, successful_requests st, failed_requests st))
     (fmlookup (stats example_server) 1) = Some (0, 0, 0) \<and>
   map_option (\<lambda>st. (total_requests st, successful_requests st, failed_requests st))
     (fmlookup (stats (process_request 0 example_server [0x01, 0x07, 0x41, 0xE2])) 1) = Some (1, 0, 0) \<and>
   port_written (process_request 0 example_server [0x01, 0x07, 0x41, 0xE2]) =
     [[0x01, 0x87, 0x01, 0x82, 0x30]]"
  by code_simp

section \<open>Read requests with a quantity out of range\<close>

lemma read_quantity_rejected:
  assumes "8 \<le> length f" and "0 \<le> sid" "sid < 256"
  shows "word_at f 4 = 0 \<or> 125 < word_at f 4 \<Longrightarrow>
           handle_read_holding_registers s sid f =
             Inr (None, send_response s (exception_frame sid 0x03 0x03))"
    and "word_at f 4 = 0 \<or> 125 < word_at f 4 \<Longrightarrow>
           handle_read_input_registers s sid f =
             Inr (None, send_response s (exception_frame sid 0x04 0x03))"
    and "word_at f 4 = 0 \<or> 2000 < word_at f 4 \<Longrightarrow>
           handle_read_coils s sid f =
             Inr (None, send_response s (exception_frame sid 0x01 0x03))"
    and "word_at f 4 = 0 \<or> 2000 < word_at f 4 \<Longrightarrow>
           handle_read_discrete_inputs s sid f =
             Inr (None, send_response s (exception_frame sid 0x02 0x03))"
  using assms
  by (auto simp add: handle_read_holding_registers_def handle_read_input_registers_def
        handle_read_coils_def handle_read_discrete_inputs_def Let_def send_exception_response_eq)

lemma slaves_update_commutes:
  "count_request now (s\<lparr>slaves := x\<rparr>) sid f = (count_request now s sid f)\<lparr>slaves := x\<rparr>"
  "send_response (s\<lparr>slaves := x\<rparr>) r = (send_response s r)\<lparr>slaves := x\<rparr>"
  "count_outcome (s\<lparr>slaves := x\<rparr>) sid None = (count_outcome s sid None)\<lparr>slaves := x\<rparr>"
  by (simp_all add: count_request_def send_response_def count_outcome_def split: option.split)

lemma process_read_quantity_rejected:
  assumes "8 \<le> length f" and "validate_crc f = Inr True"
    and "fmlookup (slaves s) (uint (f ! 0)) \<noteq> None"
    and "(uint (f ! 1) \<in> {0x01, 0x02} \<and> (word_at f 4 = 0 \<or> 2000 < word_at f 4)) \<or>
         (uint (f ! 1) \<in> {0x03, 0x04} \<and> (word_at f 4 = 0 \<or> 125 < word_at f 4))"
  shows "process_request now s f =
           count_outcome
             (send_response (count_request now s (uint (f ! 0)) f)
                (exception_frame (uint (f ! 0)) (uint (f ! 1)) 0x03))
             (uint (f ! 0)) None"
proof -
  have len: "4 \<le> length f" using assms(1) by simp
  have sid: "0 \<le> uint (f ! 0)" "uint (f ! 0) < 256"
    by (simp_all add: uint_byte_less)
  note rej = read_quantity_rejected [OF assms(1) sid]
  show ?thesis
    using assms(4)
    by (auto simp add: process_request_valid [OF len assms(3) assms(2)] handler_for_def rej
          simp del: One_nat_def)
qed

text \<open>
  Claim C5. Take a read request (eight bytes or more, so that it has a quantity field) with
  a valid CRC, addressed to a configured slave, with function code \<open>0x01\<close> or \<open>0x02\<close> and
  quantity 0 or above 2000, or function code \<open>0x03\<close> or \<open>0x04\<close> and quantity 0 or above 125.
  With the port open the dispatcher writes exactly one frame, the exception response with
  code \<open>0x03\<close>, and every slave is as it was. No store entry is read: put any other record
  in the place of the addressed slave, and the dispatcher leaves the same server but for
  that record.
\<close>

theorem read_quantity_out_of_range:
  assumes "8 \<le> length f" and "validate_crc f = Inr True"
    and "fmlookup (slaves s) (uint (f ! 0)) \<noteq> None"
    and "port_open s"
    and "(uint (f ! 1) \<in> {0x01, 0x02} \<and> (word_at f 4 = 0 \<or> 2000 < word_at f 4)) \<or>
         (uint (f ! 1) \<in> {0x03, 0x04} \<and> (word_at f 4 = 0 \<or> 125 < word_at f 4))"
  shows "port_written (process_request now s f) =
           port_written s @ [exception_frame (uint (f ! 0)) (uint (f ! 1)) 0x03] \<and>
         slaves (process_request now s f) = slaves s \<and>
         (\<forall>other. process_request now (s\<lparr>slaves := fmupd (uint (f ! 0)) other (slaves s)\<rparr>) f =
                  (process_request now s f)\<lparr>slaves := fmupd (uint (f ! 0)) other (slaves s)\<rparr>)"
proof -
  note here = process_read_quantity_rejected [OF assms(1,2,3,5), of now]
  have "process_request now (s\<lparr>slaves := fmupd (uint (f ! 0)) other (slaves s)\<rparr>) f =
          (process_request now s f)\<lparr>slaves := fmupd (uint (f ! 0)) other (slaves s)\<rparr>" for other
  proof -
    have "fmlookup (slaves (s\<lparr>slaves := fmupd (uint (f ! 0)) other (slaves s)\<rparr>)) (uint (f ! 0))
            \<noteq> None"
      by simp
    from process_read_quantity_rejected [OF assms(1,2) this assms(5), of now] show ?thesis
      by (simp only: here slaves_update_commutes)
  qed
  then show ?thesis
    using assms(4) by (simp add: here)
qed

theorem read_quantity_out_of_range_witness:
  "port_written (process_request 0 example_server [0x01, 0x03, 0x00, 0x00, 0x00, 0x00, 0x45, 0xCA]) =
     [[0x01, 0x83, 0x03, 0x01, 0x31]] \<and>
   slaves (process_request 0 example_server [0x01, 0x03, 0x00, 0x00, 0x00, 0x00, 0x45, 0xCA]) =
     slaves example_server"
proof -
  have h1: "8 \<le> length [0x01, 0x03, 0x00, 0x00, 0x00, 0x00, 0x45, 0xCA :: byte]"
    by simp
  have h2: "validate_crc [0x01, 0x03, 0x00, 0x00, 0x00, 0x00, 0x45, 0xCA] = Inr True"
    by code_simp
  have h3: "fmlookup (slaves example_server)
              (uint ([0x01, 0x03, 0x00, 0x00, 0x00, 0x00, 0x45, 0xCA :: byte] ! 0)) \<noteq> None"
    by (simp add: example_server_def)
  have h4: "port_open example_server"
    by (simp add: example_server_def)
  have h5: "(uint ([0x01, 0x03, 0x00, 0x00, 0x00, 0x00, 0x45, 0xCA :: byte] ! 1) \<in> {0x01, 0x02} \<and>
             (word_at [0x01, 0x03, 0x00, 0x00, 0x00, 0x00, 0x45, 0xCA] 4 = 0 \<or>
              2000 < word_at [0x01, 0x03, 0x00, 0x00, 0x00, 0x00, 0x45, 0xCA] 4)) \<or>
            (uint ([0x01, 0x03, 0x00, 0x00, 0x00, 0x00, 0x45, 0xCA :: byte] ! 1) \<in> {0x03, 0x04} \<and>
             (word_at [0x01, 0x03, 0x00, 0x00, 0x00, 0x00, 0x45, 0xCA] 4 = 0 \<or>
              125 < word_at [0x01, 0x03, 0x00, 0x00, 0x00, 0x00, 0x45, 0xCA] 4))"
    by (simp add: word_at_def)
  have e: "exception_frame 1 3 3 = [0x01, 0x83, 0x03, 0x01, 0x31]"
    by code_simp
  have p: "port_written example_server = []"
    by (simp add: example_server_def)
  show ?thesis
    using read_quantity_out_of_range [OF h1 h2 h3 h4 h5, of 0, THEN conjunct1]
      read_quantity_out_of_range [OF h1 h2 h3 h4 h5, of 0, THEN conjunct2, THEN conjunct1] e p
    by simp
qed

section \<open>Single writes and the read that follows\<close>

lemma spec_crc_emit_nonempty [simp]: "spec_crc_emit c \<noteq> []"
  by (simp add: spec_crc_emit_def)

lemma and_0xFF_range: "0 \<le> (x :: int) AND 0xFF" "(x :: int) AND 0xFF < 256"
proof -
  show "0 \<le> x AND 0xFF" by simp
  have "x AND 0xFF \<le> 0xFF" by (rule AND_upper2) simp
  then show "x AND 0xFF < 256" by simp
qed

lemma read_registers_range:
  "list_all (\<lambda>x. 0 \<le> x \<and> x < 256) (read_registers registers a q)"
  using and_0xFF_range
  by (auto simp add: read_registers_def list_all_iff split: option.splits)

lemma bit_255_iff: "bit (255 :: int) n = (n < 8)"
proof -
  have "(255 :: int) = mask 8" by (simp add: mask_eq_exp_minus_1)
  then have "bit (255 :: int) n = bit (mask 8 :: int) n" by (rule arg_cong)
  then show ?thesis by (simp only: bit_mask_iff) simp
qed

lemma word_at_high: "(word_of_int (drop_bit 8 (word_at f i) AND 0xFF) :: byte) = f ! i"
  unfolding word_at_def
  by (rule bit_word_eqI) (auto simp add: bit_simps bit_255_iff dest: bit_imp_le_length)

lemma word_at_low: "(word_of_int (word_at f i AND 0xFF) :: byte) = f ! (i + 1)"
  unfolding word_at_def
  by (rule bit_word_eqI) (auto simp add: bit_simps bit_255_iff dest: bit_imp_le_length)

lemma handle_read_holding_registers_ok:
  assumes "8 \<le> length f" and "0 \<le> sid" "sid < 256" and "fmlookup (slaves s) sid = Some sl"
    and "1 \<le> word_at f 4" "word_at f 4 \<le> 125"
  shows "handle_read_holding_registers s sid f =
           Inr (Some (map word_of_int
                        ([sid, 0x03, word_at f 4 * 2] @
                         read_registers (holding_registers sl) (word_at f 2) (word_at f 4)) @
                      spec_crc_emit (spec_crc16 (map word_of_int
                        ([sid, 0x03, word_at f 4 * 2] @
                         read_registers (holding_registers sl) (word_at f 2) (word_at f 4))))), s)"
proof -
  have "list_all (\<lambda>x. 0 \<le> x \<and> x < 256)
          ([sid, 0x03, word_at f 4 * 2] @
           read_registers (holding_registers sl) (word_at f 2) (word_at f 4))"
    using assms read_registers_range by simp
  from frame_with_crc_Inr [OF this] assms show ?thesis
    by (simp add: handle_read_holding_registers_def Let_def)
qed

lemma valid_frame_echo:
  assumes "validate_crc f = Inr True"
  shows "take (length f - 2) f @ spec_crc_emit (spec_crc16 (take (length f - 2) f)) = f"
proof -
  have "drop (length f - 2) f = spec_crc_emit (spec_crc16 (take (length f - 2) f))"
    using assms by (simp add: validate_crc_Inr)
  then show ?thesis
    by (metis append_take_drop_id)
qed

lemma handle_write_single_coil_eq:
  assumes "8 \<le> length f" and "0 \<le> sid" "sid < 256" and "fmlookup (slaves s) sid = Some sl"
  shows "handle_write_single_coil s sid f =
           (if word_at f 4 = 0x0000 \<or> word_at f 4 = 0xFF00
            then Inr (Some (take (length f - 2) f @ spec_crc_emit (spec_crc16 (take (length f - 2) f))),
                      s\<lparr>slaves := fmupd sid
                           (sl\<lparr>coils := fmupd (word_at f 2) (word_at f 4 = 0xFF00) (coils sl)\<rparr>)
                           (slaves s)\<rparr>)
            else Inr (None, send_response s (exception_frame sid 0x05 0x03)))"
  using assms
  by (simp add: handle_write_single_coil_def Let_def send_exception_response_eq calculate_crc_Inr)

text \<open>
  Claim C8. Take a write-single-coil request (eight bytes or more, function code \<open>0x05\<close>)
  with a valid CRC, addressed to a configured slave, the port open. If its value field is
  neither \<open>0x0000\<close> nor \<open>0xFF00\<close>, the dispatcher writes exactly the exception response with
  code \<open>0x03\<close> and every slave is as it was. Otherwise the coil at the request's address
  becomes false for \<open>0x0000\<close> and true for \<open>0xFF00\<close>, nothing else in any slave changes, and
  the dispatcher writes exactly the request without its last two bytes, followed by the
  CRC \<^verbatim>\<open>_calculate_crc\<close> returns on these bytes.
\<close>

theorem write_single_coil:
  assumes "8 \<le> length f" and "validate_crc f = Inr True"
    and "fmlookup (slaves s) (uint (f ! 0)) = Some sl"
    and "uint (f ! 1) = 0x05"
    and "port_open s"
  shows "(word_at f 4 \<noteq> 0x0000 \<and> word_at f 4 \<noteq> 0xFF00 \<longrightarrow>
            port_written (process_request now s f) =
              port_written s @ [exception_frame (uint (f ! 0)) 0x05 0x03] \<and>
            slaves (process_request now s f) = slaves s) \<and>
         (word_at f 4 = 0x0000 \<or> word_at f 4 = 0xFF00 \<longrightarrow>
            slaves (process_request now s f) =
              fmupd (uint (f ! 0))
                (sl\<lparr>coils := fmupd (word_at f 2) (word_at f 4 = 0xFF00) (coils sl)\<rparr>) (slaves s) \<and>
            (\<exists>crc. calculate_crc (take (length f - 2) f) = Inr crc \<and>
                   port_written (process_request now s f) =
                     port_written s @ [take (length f - 2) f @ crc]))"
proof -
  have len: "4 \<le> length f" using assms(1) by simp
  have sid: "0 \<le> uint (f ! 0)" "uint (f ! 0) < 256"
    by (simp_all add: uint_byte_less)
  have conf: "fmlookup (slaves s) (uint (f ! 0)) \<noteq> None"
    using assms(3) by simp
  have conf': "fmlookup (slaves (count_request now s (uint (f ! 0)) f)) (uint (f ! 0)) = Some sl"
    using assms(3) by simp
  note h = handle_write_single_coil_eq [OF assms(1) sid conf']
  have "process_request now s f =
          (case handle_write_single_coil (count_request now s (uint (f ! 0)) f) (uint (f ! 0)) f of
             Inl e \<Rightarrow> server_device_failure (count_request now s (uint (f ! 0)) f) f
           | Inr (response, s2) \<Rightarrow> count_outcome s2 (uint (f ! 0)) response)"
    by (simp add: process_request_valid [OF len conf assms(2)] handler_for_def assms(4)
          del: One_nat_def)
  then show ?thesis
    using assms(5) by (simp add: h calculate_crc_Inr)
qed

theorem write_single_coil_witness:
  "port_written (process_request 0 example_server [0x01, 0x05, 0x00, 0x00, 0xFF, 0x00, 0x8C, 0x3A]) =
     [[0x01, 0x05, 0x00, 0x00, 0xFF, 0x00, 0x8C, 0x3A]] \<and>
   slaves (process_request 0 example_server [0x01, 0x05, 0x00, 0x00, 0xFF, 0x00, 0x8C, 0x3A]) =
     fmupd 1 (create_example_slave\<lparr>coils := fmupd 0 True (coils create_example_slave)\<rparr>)
       (slaves example_server) \<and>
   port_written (process_request 0 example_server [0x01, 0x05, 0x00, 0x00, 0x00, 0x01, 0x0C, 0x0A]) =
     [[0x01, 0x85, 0x03, 0x02, 0x91]] \<and>
   slaves (process_request 0 example_server [0x01, 0x05, 0x00, 0x00, 0x00, 0x01, 0x0C, 0x0A]) =
     slaves example_server"
proof -
  let ?on = "[0x01, 0x05, 0x00, 0x00, 0xFF, 0x00, 0x8C, 0x3A] :: byte list"
  let ?bad = "[0x01, 0x05, 0x00, 0x00, 0x00, 0x01, 0x0C, 0x0A] :: byte list"
  have on: "8 \<le> length ?on" "validate_crc ?on = Inr True"
    "fmlookup (slaves example_server) (uint (?on ! 0)) = Some create_example_slave"
    "uint (?on ! 1) = 0x05"
    by (simp, code_simp, simp add: example_server_def, simp)
  have bad: "8 \<le> length ?bad" "validate_crc ?bad = Inr True"
    "fmlookup (slaves example_server) (uint (?bad ! 0)) = Some create_example_slave"
    "uint (?bad ! 1) = 0x05"
    by (simp, code_simp, simp add: example_server_def, simp)
  have op: "port_open example_server" and unwritten: "port_written example_server = []"
    by (simp_all add: example_server_def)
  have vals: "word_at ?on 4 = 0xFF00" "word_at ?on 2 = 0" "word_at ?bad 4 = 1"
    by (simp_all add: word_at_def)
  have crc: "calculate_crc (take (length ?on - 2) ?on) = Inr [0x8C, 0x3A]"
    by code_simp
  have e: "exception_frame 1 5 3 = [0x01, 0x85, 0x03, 0x02, 0x91]"
    by code_simp
  show ?thesis
    using write_single_coil [OF on op, of 0] write_single_coil [OF bad op, of 0]
      vals crc e
    by (simp add: unwritten)
qed

lemma handle_write_single_register_eq:
  assumes "8 \<le> length f" and "fmlookup (slaves s) sid = Some sl"
  shows "handle_write_single_register s sid f =
           Inr (Some (take (length f - 2) f @ spec_crc_emit (spec_crc16 (take (length f - 2) f))),
                s\<lparr>slaves := fmupd sid
                     (sl\<lparr>holding_registers :=
                          fmupd (word_at f 2) (word_at f 4) (holding_registers sl)\<rparr>)
                     (slaves s)\<rparr>)"
  using assms
  by (simp add: handle_write_single_register_def Let_def calculate_crc_Inr)

lemma process_write_single_register:
  assumes "8 \<le> length f" and "validate_crc f = Inr True"
    and "fmlookup (slaves s) (uint (f ! 0)) = Some sl"
    and "uint (f ! 1) = 0x06"
  shows "process_request now s f =
           count_outcome
             ((count_request now s (uint (f ! 0)) f)
                \<lparr>slaves := fmupd (uint (f ! 0))
                     (sl\<lparr>holding_registers :=
                          fmupd (word_at f 2) (word_at f 4) (holding_registers sl)\<rparr>)
                     (slaves s)\<rparr>)
             (uint (f ! 0))
             (Some (take (length f - 2) f @ spec_crc_emit (spec_crc16 (take (length f - 2) f))))"
proof -
  have len: "4 \<le> length f" using assms(1) by simp
  have conf: "fmlookup (slaves s) (uint (f ! 0)) \<noteq> None"
    using assms(3) by simp
  have conf': "fmlookup (slaves (count_request now s (uint (f ! 0)) f)) (uint (f ! 0)) = Some sl"
    using assms(3) by simp
  show ?thesis
    by (simp add: process_request_valid [OF len conf assms(2)] handler_for_def assms(4)
          handle_write_single_register_eq [OF assms(1) conf'] del: One_nat_def)
qed

lemma process_read_holding_registers:
  assumes "8 \<le> length f" and "validate_crc f = Inr True"
    and "fmlookup (slaves s) (uint (f ! 0)) = Some sl"
    and "uint (f ! 1) = 0x03"
    and "1 \<le> word_at f 4" "word_at f 4 \<le> 125"
  shows "process_request now s f =
           count_outcome (count_request now s (uint (f ! 0)) f) (uint (f ! 0))
             (Some (map word_of_int
                        ([uint (f ! 0), 0x03, word_at f 4 * 2] @
                         read_registers (holding_registers sl) (word_at f 2) (word_at f 4)) @
                      spec_crc_emit (spec_crc16 (map word_of_int
                        ([uint (f ! 0), 0x03, word_at f 4 * 2] @
                         read_registers (holding_registers sl) (word_at f 2) (word_at f 4))))))"
proof -
  have len: "4 \<le> length f" using assms(1) by simp
  have sid: "0 \<le> uint (f ! 0)" "uint (f ! 0) < 256"
    by (simp_all add: uint_byte_less)
  have conf: "fmlookup (slaves s) (uint (f ! 0)) \<noteq> None"
    using assms(3) by simp
  have conf': "fmlookup (slaves (count_request now s (uint (f ! 0)) f)) (uint (f ! 0)) = Some sl"
    using assms(3) by simp
  show ?thesis
    by (simp add: process_request_valid [OF len conf assms(2)] handler_for_def assms(4)
          handle_read_holding_registers_ok [OF assms(1) sid conf' assms(5,6)] del: One_nat_def)
qed

text \<open>
  Claim C6. Take a write-single-register request \<open>f1\<close> (function code \<open>0x06\<close>) and a
  read-holding-registers request \<open>f2\<close> (function code \<open>0x03\<close>) for the same configured slave,
  both with a valid CRC, \<open>f2\<close> with the start address of \<open>f1\<close> and quantity 1. After \<open>f1\<close> the
  slave holds the value \<open>v\<close> of \<open>f1\<close> at its address \<open>a\<close>, and the response the dispatcher
  writes to \<open>f2\<close> is the slave identifier, \<open>0x03\<close>, the byte count 2, the high byte and the
  low byte of \<open>v\<close>, and the CRC.
\<close>

theorem write_single_register_then_read:
  assumes w: "8 \<le> length f1" "validate_crc f1 = Inr True" "uint (f1 ! 1) = 0x06"
    and r: "8 \<le> length f2" "validate_crc f2 = Inr True" "uint (f2 ! 1) = 0x03"
    and same: "f2 ! 0 = f1 ! 0" "word_at f2 2 = word_at f1 2"
    and one: "word_at f2 4 = 1"
    and conf: "fmlookup (slaves s) (uint (f1 ! 0)) = Some sl"
    and "port_open s"
  shows "(\<exists>sl1. fmlookup (slaves (process_request t1 s f1)) (uint (f1 ! 0)) = Some sl1 \<and>
                fmlookup (holding_registers sl1) (word_at f1 2) = Some (word_at f1 4)) \<and>
         port_written (process_request t2 (process_request t1 s f1) f2) =
           port_written (process_request t1 s f1) @
             [[f1 ! 0, 0x03, 0x02, f1 ! 4, f1 ! 5] @
              spec_crc_emit (spec_crc16 [f1 ! 0, 0x03, 0x02, f1 ! 4, f1 ! 5])] \<and>
         f1 ! 4 = word_of_int (drop_bit 8 (word_at f1 4) AND 0xFF) \<and>
         f1 ! 5 = word_of_int (word_at f1 4 AND 0xFF)"
proof -
  let ?sid = "uint (f1 ! 0)"
  let ?sl' = "sl\<lparr>holding_registers := fmupd (word_at f1 2) (word_at f1 4) (holding_registers sl)\<rparr>"
  let ?s1 = "process_request t1 s f1"
  have s1: "?s1 = count_outcome
             ((count_request t1 s ?sid f1)\<lparr>slaves := fmupd ?sid ?sl' (slaves s)\<rparr>) ?sid
             (Some (take (length f1 - 2) f1 @ spec_crc_emit (spec_crc16 (take (length f1 - 2) f1))))"
    by (rule process_write_single_register [OF w(1,2) conf w(3)])
  have conf1: "fmlookup (slaves ?s1) (uint (f2 ! 0)) = Some ?sl'"
    by (simp add: s1 same)
  have open1: "port_open ?s1"
    using \<open>port_open s\<close> by (simp add: s1)
  have q: "1 \<le> word_at f2 4" "word_at f2 4 \<le> 125"
    using one by simp_all
  have regs: "read_registers (holding_registers ?sl') (word_at f2 2) (word_at f2 4) =
        [drop_bit 8 (word_at f1 4) AND 0xFF, word_at f1 4 AND 0xFF]"
    by (simp add: read_registers_def same one)
  have resp: "map word_of_int ([uint (f2 ! 0), 0x03, word_at f2 4 * 2] @
          read_registers (holding_registers ?sl') (word_at f2 2) (word_at f2 4)) =
        [f1 ! 0, 0x03, 0x02, f1 ! 4, f1 ! 5 :: byte]"
    unfolding regs using word_at_high [of f1 4] word_at_low [of f1 4] by (simp add: same one)
  note s2 = process_read_holding_registers [OF r(1,2) conf1 r(3) q, unfolded resp]
  have "port_written (process_request t2 ?s1 f2) =
           port_written ?s1 @
             [[f1 ! 0, 0x03, 0x02, f1 ! 4, f1 ! 5] @
              spec_crc_emit (spec_crc16 [f1 ! 0, 0x03, 0x02, f1 ! 4, f1 ! 5])]"
    unfolding s2 [of t2] using open1 by simp
  moreover have "fmlookup (slaves ?s1) ?sid = Some ?sl'"
    using conf1 by (simp add: same)
  moreover have "fmlookup (holding_registers ?sl') (word_at f1 2) = Some (word_at f1 4)"
    by simp
  ultimately show ?thesis
    using word_at_high [of f1 4] word_at_low [of f1 4] by simp
qed

theorem write_single_register_then_read_witness:
  "port_written
     (process_request 0
        (process_request 0 example_server [0x01, 0x06, 0x00, 0x05, 0x12, 0x34, 0x94, 0xBC])
        [0x01, 0x03, 0x00, 0x05, 0x00, 0x01, 0x94, 0x0B]) =
     [[0x01, 0x06, 0x00, 0x05, 0x12, 0x34, 0x94, 0xBC], [0x01, 0x03, 0x02, 0x12, 0x34, 0xB5, 0x33]]"
proof -
  let ?f1 = "[0x01, 0x06, 0x00, 0x05, 0x12, 0x34, 0x94, 0xBC] :: byte list"
  let ?f2 = "[0x01, 0x03, 0x00, 0x05, 0x00, 0x01, 0x94, 0x0B] :: byte list"
  have w: "8 \<le> length ?f1" "validate_crc ?f1 = Inr True" "uint (?f1 ! 1) = 0x06"
    by (simp, code_simp, simp)
  have r: "8 \<le> length ?f2" "validate_crc ?f2 = Inr True" "uint (?f2 ! 1) = 0x03"
    by (simp, code_simp, simp)
  have same: "?f2 ! 0 = ?f1 ! 0" "word_at ?f2 2 = word_at ?f1 2" "word_at ?f2 4 = 1"
    by (simp_all add: word_at_def)
  have conf: "fmlookup (slaves example_server) (uint (?f1 ! 0)) = Some create_example_slave"
    by (simp add: example_server_def)
  have op: "port_open example_server"
    by (simp add: example_server_def)
  have first: "port_written (process_request 0 example_server ?f1) = [?f1]"
    by code_simp
  have crc: "spec_crc_emit (spec_crc16 [0x01, 0x03, 0x02, 0x12, 0x34]) = [0xB5, 0x33]"
    by code_simp
  show ?thesis
    using write_single_register_then_read [OF w r same conf op, of 0 0] first crc by simp
qed

section \<open>Reading a file record\<close>

lemma fit_file_data_eq:
  assumes "0 \<le> record_length"
  shows "fit_file_data stored record_length =
           take (nat (record_length * 2)) (stored @ replicate (nat (record_length * 2)) 0)"
    and "length (fit_file_data stored record_length) = nat (record_length * 2)"
  using assms by (auto simp add: fit_file_data_def)

lemma map_word_of_int_uint: "map word_of_int (map uint (bs :: byte list)) = bs"
  by (induction bs) simp_all

lemma word_of_int_comp_uint: "(word_of_int \<circ> uint) = (id :: byte \<Rightarrow> byte)"
  by (rule ext) simp

lemma handle_read_file_records_slaves:
  "handle_read_file_records s sid f = Inr (r, s') \<Longrightarrow> slaves s' = slaves s"
  by (auto simp add: handle_read_file_records_def Let_def split: if_splits option.splits sum.splits)

lemma handle_read_file_records_Inl:
  "fmlookup (slaves s) sid \<noteq> None \<Longrightarrow> handle_read_file_records s sid f \<noteq> Inl e"
  by (auto simp add: handle_read_file_records_def Let_def split: if_splits option.splits sum.splits)

lemma list_all_uint_range: "list_all (\<lambda>x. 0 \<le> x \<and> x < 256) (map uint (bs :: byte list))"
  by (simp add: list_all_iff uint_byte_less)

lemma handle_read_file_records_short:
  "length f < 10 \<Longrightarrow> handle_read_file_records s sid f = Inr (None, s)"
  by (simp add: handle_read_file_records_def)

lemma handle_read_file_records_rejected:
  assumes "10 \<le> length f" and "0 \<le> sid" "sid < 256"
    and "uint (f ! 2) \<noteq> 7 \<or> uint (f ! 3) \<noteq> 6"
  shows "handle_read_file_records s sid f =
           Inr (None, send_response s (exception_frame sid 0x14 0x03))"
  using assms
  by (auto simp add: handle_read_file_records_def Let_def send_exception_response_eq)

lemma handle_read_file_records_absent:
  assumes "10 \<le> length f" and "0 \<le> sid" "sid < 256"
    and "uint (f ! 2) = 7" "uint (f ! 3) = 6"
    and "fmlookup (slaves s) sid = Some sl"
    and "lookup_file_record sl (word_at f 4) (word_at f 6) = None"
  shows "handle_read_file_records s sid f =
           Inr (Some ([word_of_int sid, 0x14, 0x02, 0x01, 0x06] @
                      spec_crc_emit (spec_crc16 [word_of_int sid, 0x14, 0x02, 0x01, 0x06])), s)"
  using assms
  by (simp add: handle_read_file_records_def Let_def frame_with_crc_Inr)

lemma handle_read_file_records_present:
  assumes "10 \<le> length f" and "0 \<le> sid" "sid < 256"
    and "uint (f ! 2) = 7" "uint (f ! 3) = 6"
    and "fmlookup (slaves s) sid = Some sl"
    and "lookup_file_record sl (word_at f 4) (word_at f 6) = Some stored"
    and "word_at f 8 \<le> 126"
  shows "handle_read_file_records s sid f =
           Inr (Some ([word_of_int sid, 0x14,
                       word_of_int (int (length (fit_file_data stored (word_at f 8))) + 2),
                       word_of_int (int (length (fit_file_data stored (word_at f 8))) + 1), 0x06] @
                      fit_file_data stored (word_at f 8) @
                      spec_crc_emit (spec_crc16
                        ([word_of_int sid, 0x14,
                          word_of_int (int (length (fit_file_data stored (word_at f 8))) + 2),
                          word_of_int (int (length (fit_file_data stored (word_at f 8))) + 1), 0x06] @
                         fit_file_data stored (word_at f 8)))), s)"
proof -
  let ?data = "fit_file_data stored (word_at f 8)"
  have len: "int (length ?data) = word_at f 8 * 2"
    using fit_file_data_eq(2) [OF word_at_nonneg, of stored f 8] word_at_nonneg [of f 8] by simp
  have "list_all (\<lambda>x. 0 \<le> x \<and> x < 256)
          ([sid, 0x14, int (length ?data) + 1 + 1, int (length ?data) + 1, 6] @ map uint ?data)"
    using assms(2,3,8) len list_all_uint_range [of ?data] by simp
  from frame_with_crc_Inr [OF this] assms(1,4,5,6,7) show ?thesis
    by (simp add: handle_read_file_records_def Let_def word_of_int_comp_uint add.commute)
qed

lemma process_read_file_record:
  assumes "4 \<le> length f" and "validate_crc f = Inr True"
    and "fmlookup (slaves s) (uint (f ! 0)) = Some sl"
    and "uint (f ! 1) = 0x14"
    and "port_open s"
  shows "slaves (process_request now s f) = slaves s"
    and "length f < 10 \<longrightarrow> port_written (process_request now s f) = port_written s"
    and "10 \<le> length f \<and> (uint (f ! 2) \<noteq> 7 \<or> uint (f ! 3) \<noteq> 6) \<longrightarrow>
           port_written (process_request now s f) =
             port_written s @ [exception_frame (uint (f ! 0)) 0x14 0x03]"
    and "10 \<le> length f \<and> uint (f ! 2) = 7 \<and> uint (f ! 3) = 6 \<and>
         lookup_file_record sl (word_at f 4) (word_at f 6) = None \<longrightarrow>
           port_written (process_request now s f) =
             port_written s @
               [[f ! 0, 0x14, 0x02, 0x01, 0x06] @ spec_crc_emit (spec_crc16 [f ! 0, 0x14, 0x02, 0x01, 0x06])]"
    and "10 \<le> length f \<and> uint (f ! 2) = 7 \<and> uint (f ! 3) = 6 \<and>
         lookup_file_record sl (word_at f 4) (word_at f 6) = Some stored \<and> word_at f 8 \<le> 126 \<longrightarrow>
           (\<exists>data file_response_length response_data_length.
              data = take (nat (2 * word_at f 8)) (stored @ replicate (nat (2 * word_at f 8)) 0) \<and>
              int (length data) = 2 * word_at f 8 \<and>
              file_response_length = int (length data) + 1 \<and>
              response_data_length = file_response_length + 1 \<and>
              port_written (process_request now s f) =
                port_written s @
                  [[f ! 0, 0x14, word_of_int response_data_length, word_of_int file_response_length,
                    0x06] @ data @
                   spec_crc_emit (spec_crc16
                     ([f ! 0, 0x14, word_of_int response_data_length,
                       word_of_int file_response_length, 0x06] @ data))])"
proof -
  let ?sid = "uint (f ! 0)"
  let ?s1 = "count_request now s ?sid f"
  have sid: "0 \<le> ?sid" "?sid < 256"
    by (simp_all add: uint_byte_less)
  have conf: "fmlookup (slaves s) ?sid \<noteq> None"
    using assms(3) by simp
  have conf': "fmlookup (slaves ?s1) ?sid = Some sl"
    using assms(3) by simp
  have pr: "process_request now s f =
          (case handle_read_file_records ?s1 ?sid f of
             Inl e \<Rightarrow> server_device_failure ?s1 f
           | Inr (response, s2) \<Rightarrow> count_outcome s2 ?sid response)"
    by (simp add: process_request_valid [OF assms(1) conf assms(2)] handler_for_def assms(4)
          del: One_nat_def)
  show short: "length f < 10 \<longrightarrow> port_written (process_request now s f) = port_written s"
    by (simp add: pr handle_read_file_records_short)
  show rejected: "10 \<le> length f \<and> (uint (f ! 2) \<noteq> 7 \<or> uint (f ! 3) \<noteq> 6) \<longrightarrow>
           port_written (process_request now s f) =
             port_written s @ [exception_frame (uint (f ! 0)) 0x14 0x03]"
    using assms(5) by (auto simp add: pr handle_read_file_records_rejected [OF _ sid])
  show absent: "10 \<le> length f \<and> uint (f ! 2) = 7 \<and> uint (f ! 3) = 6 \<and>
         lookup_file_record sl (word_at f 4) (word_at f 6) = None \<longrightarrow>
           port_written (process_request now s f) =
             port_written s @
               [[f ! 0, 0x14, 0x02, 0x01, 0x06] @ spec_crc_emit (spec_crc16 [f ! 0, 0x14, 0x02, 0x01, 0x06])]"
    using assms(5) by (auto simp add: pr handle_read_file_records_absent [OF _ sid _ _ conf'])
  show "10 \<le> length f \<and> uint (f ! 2) = 7 \<and> uint (f ! 3) = 6 \<and>
         lookup_file_record sl (word_at f 4) (word_at f 6) = Some stored \<and> word_at f 8 \<le> 126 \<longrightarrow>
           (\<exists>data file_response_length response_data_length.
              data = take (nat (2 * word_at f 8)) (stored @ replicate (nat (2 * word_at f 8)) 0) \<and>
              int (length data) = 2 * word_at f 8 \<and>
              file_response_length = int (length data) + 1 \<and>
              response_data_length = file_response_length + 1 \<and>
              port_written (process_request now s f) =
                port_written s @
                  [[f ! 0, 0x14, word_of_int response_data_length, word_of_int file_response_length,
                    0x06] @ data @
                   spec_crc_emit (spec_crc16
                     ([f ! 0, 0x14, word_of_int response_data_length,
                       word_of_int file_response_length, 0x06] @ data))])"
  proof (intro impI, elim conjE)
    assume a: "10 \<le> length f" "uint (f ! 2) = 7" "uint (f ! 3) = 6"
      "lookup_file_record sl (word_at f 4) (word_at f 6) = Some stored" "word_at f 8 \<le> 126"
    let ?data = "fit_file_data stored (word_at f 8)"
    note fit = fit_file_data_eq [OF word_at_nonneg, of stored f 8]
    have d: "?data = take (nat (2 * word_at f 8)) (stored @ replicate (nat (2 * word_at f 8)) 0)"
      using fit(1) by (simp add: mult.commute)
    have l: "int (length ?data) = 2 * word_at f 8"
      using fit(2) word_at_nonneg [of f 8] by simp
    have "port_written (process_request now s f) =
            port_written s @
              [[f ! 0, 0x14, word_of_int (int (length ?data) + 1 + 1),
                word_of_int (int (length ?data) + 1), 0x06] @ ?data @
               spec_crc_emit (spec_crc16
                 ([f ! 0, 0x14, word_of_int (int (length ?data) + 1 + 1),
                   word_of_int (int (length ?data) + 1), 0x06] @ ?data))]"
      using assms(5)
      by (simp add: pr handle_read_file_records_present [OF a(1) sid a(2,3) conf' a(4,5)]
            add.commute)
    with d l show "\<exists>data file_response_length response_data_length.
              data = take (nat (2 * word_at f 8)) (stored @ replicate (nat (2 * word_at f 8)) 0) \<and>
              int (length data) = 2 * word_at f 8 \<and>
              file_response_length = int (length data) + 1 \<and>
              response_data_length = file_response_length + 1 \<and>
              port_written (process_request now s f) =
                port_written s @
                  [[f ! 0, 0x14, word_of_int response_data_length, word_of_int file_response_length,
                    0x06] @ data @
                   spec_crc_emit (spec_crc16
                     ([f ! 0, 0x14, word_of_int response_data_length,
                       word_of_int file_response_length, 0x06] @ data))]"
      by (metis (no_types))
  qed
  show "slaves (process_request now s f) = slaves s"
  proof (cases "handle_read_file_records ?s1 ?sid f")
    case (Inl e)
    with handle_read_file_records_Inl [of ?s1 ?sid f e] conf' show ?thesis by simp
  next
    case (Inr p)
    then obtain r s2 where "handle_read_file_records ?s1 ?sid f = Inr (r, s2)"
      by (cases p) simp
    with handle_read_file_records_slaves [OF this] show ?thesis
      by (simp add: pr)
  qed
qed

text \<open>
  Claim C7, as the code has it. Take a request with function code \<open>0x14\<close> and a valid CRC,
  addressed to a configured slave, the port open. No file record and no other slave data
  changes. A request shorter than ten bytes gets no response. For a request of ten bytes or
  more: if its byte count is not 7 or its reference type is not 6, the response is the
  exception \<open>0x03\<close>; otherwise, if the record is absent, the response body is
  \<open>response_data_length = 2\<close>, \<open>file_response_length = 1\<close>, the reference type, and no data;
  and if the record is there and \<open>record_length\<close> is at most 126, its stored bytes are cut
  or padded with trailing zero bytes to exactly \<open>2 * record_length\<close> bytes, and the response
  carries \<open>response_data_length = file_response_length + 1\<close> and
  \<open>file_response_length = len(data) + 1\<close> before the reference type and the data.
\<close>

theorem read_file_record:
  assumes "4 \<le> length f" and "validate_crc f = Inr True"
    and "fmlookup (slaves s) (uint (f ! 0)) = Some sl"
    and "uint (f ! 1) = 0x14"
    and "port_open s"
  shows "slaves (process_request now s f) = slaves s \<and>
         (length f < 10 \<longrightarrow> port_written (process_request now s f) = port_written s) \<and>
         (10 \<le> length f \<and> (uint (f ! 2) \<noteq> 7 \<or> uint (f ! 3) \<noteq> 6) \<longrightarrow>
            port_written (process_request now s f) =
              port_written s @ [exception_frame (uint (f ! 0)) 0x14 0x03]) \<and>
         (10 \<le> length f \<and> uint (f ! 2) = 7 \<and> uint (f ! 3) = 6 \<and>
          lookup_file_record sl (word_at f 4) (word_at f 6) = None \<longrightarrow>
            port_written (process_request now s f) =
              port_written s @
                [[f ! 0, 0x14, 0x02, 0x01, 0x06] @
                 spec_crc_emit (spec_crc16 [f ! 0, 0x14, 0x02, 0x01, 0x06])]) \<and>
         (10 \<le> length f \<and> uint (f ! 2) = 7 \<and> uint (f ! 3) = 6 \<and>
          lookup_file_record sl (word_at f 4) (word_at f 6) = Some stored \<and> word_at f 8 \<le> 126 \<longrightarrow>
            (\<exists>data file_response_length response_data_length.
               data = take (nat (2 * word_at f 8)) (stored @ replicate (nat (2 * word_at f 8)) 0) \<and>
               int (length data) = 2 * word_at f 8 \<and>
               file_response_length = int (length data) + 1 \<and>
               response_data_length = file_response_length + 1 \<and>
               port_written (process_request now s f) =
                 port_written s @
                   [[f ! 0, 0x14, word_of_int response_data_length, word_of_int file_response_length,
                     0x06] @ data @
                    spec_crc_emit (spec_crc16
                      ([f ! 0, 0x14, word_of_int response_data_length,
                        word_of_int file_response_length, 0x06] @ data))]))"
  by (intro conjI) (rule process_read_file_record [OF assms])+

theorem read_file_record_witness:
  "port_written (process_request 0 example_server
       [0x01, 0x14, 0x07, 0x06, 0x00, 0x01, 0x00, 0x01, 0x00, 0x04, 0x94, 0xE7]) =
     [[0x01, 0x14, 0x0A, 0x09, 0x06, 0x53, 0x45, 0x52, 0x49, 0x41, 0x4C, 0x5F, 0x31, 0x47, 0x53]] \<and>
   port_written (process_request 0 example_server
       [0x01, 0x14, 0x07, 0x06, 0x00, 0x09, 0x00, 0x00, 0x00, 0x04, 0x24, 0xE6]) =
     [[0x01, 0x14, 0x02, 0x01, 0x06, 0x3C, 0x62]] \<and>
   port_written (process_request 0 example_server
       [0x01, 0x14, 0x07, 0x05, 0x00, 0x01, 0x00, 0x00, 0x00, 0x04, 0xF6, 0x27]) =
     [[0x01, 0x94, 0x03, 0x0E, 0xC1]] \<and>
   port_written (process_request 0 example_server [0x01, 0x14, 0x01, 0x05, 0x80, 0x4F]) = []"
proof -
  let ?present = "[0x01, 0x14, 0x07, 0x06, 0x00, 0x01, 0x00, 0x01, 0x00, 0x04, 0x94, 0xE7] :: byte list"
  let ?absent = "[0x01, 0x14, 0x07, 0x06, 0x00, 0x09, 0x00, 0x00, 0x00, 0x04, 0x24, 0xE6] :: byte list"
  let ?rejected = "[0x01, 0x14, 0x07, 0x05, 0x00, 0x01, 0x00, 0x00, 0x00, 0x04, 0xF6, 0x27] :: byte list"
  let ?short = "[0x01, 0x14, 0x01, 0x05, 0x80, 0x4F] :: byte list"
  let ?stored = "map of_char ''SERIAL_12345678'' @ replicate 12 0 :: byte list"
  have crcs: "validate_crc ?present = Inr True" "validate_crc ?absent = Inr True"
    "validate_crc ?rejected = Inr True" "validate_crc ?short = Inr True"
    by code_simp+
  have srv: "port_open example_server" "port_written example_server = []"
    by (simp_all add: example_server_def)
  have conf: "fmlookup (slaves example_server) 1 = Some create_example_slave"
    by (simp add: example_server_def)
  have rec: "lookup_file_record create_example_slave (word_at ?present 4) (word_at ?present 6)
               = Some ?stored"
    "lookup_file_record create_example_slave (word_at ?absent 4) (word_at ?absent 6) = None"
    by (simp_all add: lookup_file_record_def create_example_slave_def word_at_def)
  have len: "word_at ?present 8 = 4"
    by (simp add: word_at_def)
  have data: "take (nat (2 * 4)) (?stored @ replicate (nat (2 * 4)) 0) =
                [0x53, 0x45, 0x52, 0x49, 0x41, 0x4C, 0x5F, 0x31]"
    by code_simp
  have c1: "spec_crc_emit (spec_crc16
              [0x01, 0x14, 0x0A, 0x09, 0x06, 0x53, 0x45, 0x52, 0x49, 0x41, 0x4C, 0x5F, 0x31]) = [0x47, 0x53]"
    and c2: "spec_crc_emit (spec_crc16 [0x01, 0x14, 0x02, 0x01, 0x06]) = [0x3C, 0x62]"
    and c3: "exception_frame 1 0x14 3 = [0x01, 0x94, 0x03, 0x0E, 0xC1]"
    by code_simp+
  have "port_written (process_request 0 example_server ?present) =
     [[0x01, 0x14, 0x0A, 0x09, 0x06, 0x53, 0x45, 0x52, 0x49, 0x41, 0x4C, 0x5F, 0x31, 0x47, 0x53]]"
    using read_file_record [of ?present example_server create_example_slave 0 ?stored]
      crcs(1) srv conf rec(1) len data c1
    by simp
  moreover have "port_written (process_request 0 example_server ?absent) =
     [[0x01, 0x14, 0x02, 0x01, 0x06, 0x3C, 0x62]]"
    using read_file_record [of ?absent example_server create_example_slave 0 "[]"]
      crcs(2) srv conf rec(2) c2
    by simp
  moreover have "port_written (process_request 0 example_server ?rejected) =
     [[0x01, 0x94, 0x03, 0x0E, 0xC1]]"
    using read_file_record [of ?rejected example_server create_example_slave 0 "[]"]
      crcs(3) srv conf c3
    by simp
  moreover have "port_written (process_request 0 example_server ?short) = []"
    using read_file_record [of ?short example_server create_example_slave 0 "[]"]
      crcs(4) srv conf
    by simp
  ultimately show ?thesis by simp
qed

text \<open>
  The claim as written fails. The six-byte request \<open>01 14 01 05 80 4F\<close> (byte count 1,
  reference type 5, valid CRC) is not answered with the exception \<open>0x03\<close>: nothing is
  written. And a request for the record (1, 0) of the example slave, which is there, with
  \<open>record_length = 127\<close> is answered with the exception \<open>0x04\<close>: the length byte 256 does
  not fit \<^verbatim>\<open>bytes(...)\<close>.
\<close>

theorem read_file_record_counterexample:
  "validate_crc [0x01, 0x14, 0x01, 0x05, 0x80, 0x4F] = Inr True \<and>
   fmlookup (slaves example_server) 1 = Some create_example_slave \<and>
   port_written (process_request 0 example_server [0x01, 0x14, 0x01, 0x05, 0x80, 0x4F]) = [] \<and>
   validate_crc [0x01, 0x14, 0x07, 0x06, 0x00, 0x01, 0x00, 0x00, 0x00, 0x7F, 0x85, 0x04] = Inr True \<and>
   lookup_file_record create_example_slave 1 0 \<noteq> None \<and>
   port_written (process_request 0 example_server
       [0x01, 0x14, 0x07, 0x06, 0x00, 0x01, 0x00, 0x00, 0x00, 0x7F, 0x85, 0x04]) =
     [[0x01, 0x94, 0x04, 0x4F, 0x03]]"
  by code_simp

section \<open>Writing several coils\<close>

lemma coil_value_bit: "(uint (b :: byte) AND push_bit n 1 \<noteq> 0) = bit b n"
proof -
  have "bit (uint b) n = (uint b AND push_bit n 1 \<noteq> 0)"
    by (rule bit_iff_and_push_bit_not_eq_0)
  moreover have "bit (uint b) n = bit b n"
    by (auto simp add: bit_uint_iff dest: bit_imp_le_length)
  ultimately show ?thesis
    by simp
qed

lemma write_coils_lookup:
  "write_coils d a is cs = (cs', True) \<Longrightarrow>
     fmlookup cs' k =
       (if a \<le> k \<and> nat (k - a) \<in> set is
        then Some (bit (d ! (nat (k - a) div 8)) (nat (k - a) mod 8))
        else fmlookup cs k)"
proof (induction "is" arbitrary: cs)
  case Nil
  then show ?case by simp
next
  case (Cons i "is")
  from Cons.prems have inside: "i div 8 < length d"
    by (simp add: Let_def split: if_splits)
  with Cons.prems have
    "write_coils d a is (fmupd (a + int i) (uint (d ! (i div 8)) AND push_bit (i mod 8) 1 \<noteq> 0) cs)
       = (cs', True)"
    by (simp add: Let_def)
  from Cons.IH [OF this [unfolded coil_value_bit]] show ?case
    by auto
qed

lemma write_coils_inside:
  "write_coils d a is cs = (cs', True) \<Longrightarrow> i \<in> set is \<Longrightarrow> i div 8 < length d"
  by (induction "is" arbitrary: cs) (auto simp add: Let_def split: if_splits)

lemma write_multiple_coils_result:
  assumes "handle_write_multiple_coils s sid f = Inr (Some response, s')"
  shows "\<exists>sl sl'. fmlookup (slaves s) sid = Some sl \<and>
           s' = s\<lparr>slaves := fmupd sid sl' (slaves s)\<rparr> \<and>
           sl' = sl\<lparr>coils := coils sl'\<rparr> \<and>
           1 \<le> word_at f 4 \<and> word_at f 4 \<le> 1968 \<and>
           (\<forall>k. fmlookup (coils sl') k =
                  (if word_at f 2 \<le> k \<and> k < word_at f 2 + word_at f 4
                   then Some (bit (f ! (7 + nat (k - word_at f 2) div 8)) (nat (k - word_at f 2) mod 8))
                   else fmlookup (coils sl) k))"
proof -
  let ?a = "word_at f 2" and ?q = "word_at f 4" and ?bc = "uint (f ! 6)"
  from assms have len: "9 \<le> length f"
    by (auto simp add: handle_write_multiple_coils_def split: if_splits)
  from assms len have q: "1 \<le> ?q" "?q \<le> 1968" "?bc = (?q + 7) div 8"
    by (auto simp add: handle_write_multiple_coils_def Let_def send_exception_response_def
          split: if_splits)
  from assms len q obtain sl where sl: "fmlookup (slaves s) sid = Some sl"
    by (auto simp add: handle_write_multiple_coils_def Let_def split: if_splits option.splits)
  let ?d = "take (nat ?bc) (drop 7 f)"
  obtain cs completed where loop: "write_coils ?d ?a [0 ..< nat ?q] (coils sl) = (cs, completed)"
    by (cases "write_coils ?d ?a [0 ..< nat ?q] (coils sl)")
  from assms len q sl loop have completed: "completed"
    by (auto simp add: handle_write_multiple_coils_def Let_def split: if_splits sum.splits)
  from assms len q sl loop completed have s': "s' = s\<lparr>slaves := fmupd sid (sl\<lparr>coils := cs\<rparr>) (slaves s)\<rparr>"
    by (auto simp add: handle_write_multiple_coils_def Let_def split: if_splits sum.splits)
  note loop' = loop [unfolded completed [THEN eqTrueI]]
  have dom: "(?a \<le> k \<and> nat (k - ?a) \<in> set [0 ..< nat ?q]) = (?a \<le> k \<and> k < ?a + ?q)" for k
    using q by auto
  note look = write_coils_lookup [OF loop', unfolded dom]
  have "fmlookup cs k =
          (if ?a \<le> k \<and> k < ?a + ?q
           then Some (bit (f ! (7 + nat (k - ?a) div 8)) (nat (k - ?a) mod 8))
           else fmlookup (coils sl) k)" for k
  proof (cases "?a \<le> k \<and> k < ?a + ?q")
    case True
    then have mem: "nat (k - ?a) \<in> set [0 ..< nat ?q]"
      by auto
    from write_coils_inside [OF loop' mem]
    have "nat (k - ?a) div 8 < length ?d" .
    then have "?d ! (nat (k - ?a) div 8) = f ! (7 + nat (k - ?a) div 8)"
      using len by simp
    then show ?thesis
      by (simp only: look [of k] True if_True)
  next
    case False
    then show ?thesis
      by (simp only: look [of k] if_False)
  qed
  with sl s' q show ?thesis
    by (intro exI [of _ sl] exI [of _ "sl\<lparr>coils := cs\<rparr>"]) simp
qed

text \<open>
  Claim C9. A write-multiple-coils request is successful when its handler returns a
  response. Then the addressed slave is configured, the quantity \<open>q\<close> is between 1 and
  1968, and the server the handler leaves is the one it was given except for the coils of
  the addressed slave: the coil at \<open>a + i\<close>, for \<open>i\<close> below \<open>q\<close>, is bit \<open>i mod 8\<close> of data byte
  \<open>i div 8\<close>, and every other coil is as it was. Holding registers, input registers,
  discrete inputs and file records of this slave, every other slave, the statistics and
  the port are unchanged (the dispatcher then only counts the request and writes the
  response). The payload bits from position \<open>q\<close> on are ignored: a second successful request
  with the same start address and quantity that agrees with the first on the bits below
  \<open>q\<close> leaves the same server, whatever its other bits.
\<close>

theorem write_multiple_coils_frame:
  assumes "handle_write_multiple_coils s sid f = Inr (Some response, s')"
  shows "(\<exists>sl sl'. fmlookup (slaves s) sid = Some sl \<and>
           s' = s\<lparr>slaves := fmupd sid sl' (slaves s)\<rparr> \<and>
           sl' = sl\<lparr>coils := coils sl'\<rparr> \<and>
           1 \<le> word_at f 4 \<and> word_at f 4 \<le> 1968 \<and>
           (\<forall>k. fmlookup (coils sl') k =
                  (if word_at f 2 \<le> k \<and> k < word_at f 2 + word_at f 4
                   then Some (bit (f ! (7 + nat (k - word_at f 2) div 8)) (nat (k - word_at f 2) mod 8))
                   else fmlookup (coils sl) k))) \<and>
         (\<forall>g response2 s2.
            handle_write_multiple_coils s sid g = Inr (Some response2, s2) \<and>
            word_at g 2 = word_at f 2 \<and> word_at g 4 = word_at f 4 \<and>
            (\<forall>i < nat (word_at f 4).
               bit (g ! (7 + i div 8)) (i mod 8) = bit (f ! (7 + i div 8)) (i mod 8)) \<longrightarrow>
            s2 = s')"
proof (intro conjI allI impI)
  show "\<exists>sl sl'. fmlookup (slaves s) sid = Some sl \<and>
           s' = s\<lparr>slaves := fmupd sid sl' (slaves s)\<rparr> \<and>
           sl' = sl\<lparr>coils := coils sl'\<rparr> \<and>
           1 \<le> word_at f 4 \<and> word_at f 4 \<le> 1968 \<and>
           (\<forall>k. fmlookup (coils sl') k =
                  (if word_at f 2 \<le> k \<and> k < word_at f 2 + word_at f 4
                   then Some (bit (f ! (7 + nat (k - word_at f 2) div 8)) (nat (k - word_at f 2) mod 8))
                   else fmlookup (coils sl) k))"
    by (rule write_multiple_coils_result [OF assms])
next
  fix g response2 s2
  assume other: "handle_write_multiple_coils s sid g = Inr (Some response2, s2) \<and>
            word_at g 2 = word_at f 2 \<and> word_at g 4 = word_at f 4 \<and>
            (\<forall>i < nat (word_at f 4).
               bit (g ! (7 + i div 8)) (i mod 8) = bit (f ! (7 + i div 8)) (i mod 8))"
  then have run: "handle_write_multiple_coils s sid g = Inr (Some response2, s2)"
    and header: "word_at g 2 = word_at f 2" "word_at g 4 = word_at f 4"
    and agree: "\<And>i. i < nat (word_at f 4) \<Longrightarrow>
               bit (g ! (7 + i div 8)) (i mod 8) = bit (f ! (7 + i div 8)) (i mod 8)"
    by blast+
  from write_multiple_coils_result [OF assms] obtain sl sl1 where
    sl: "fmlookup (slaves s) sid = Some sl"
    and s': "s' = s\<lparr>slaves := fmupd sid sl1 (slaves s)\<rparr>"
    and sl1: "sl1 = sl\<lparr>coils := coils sl1\<rparr>"
    and look1: "\<And>k. fmlookup (coils sl1) k =
                  (if word_at f 2 \<le> k \<and> k < word_at f 2 + word_at f 4
                   then Some (bit (f ! (7 + nat (k - word_at f 2) div 8)) (nat (k - word_at f 2) mod 8))
                   else fmlookup (coils sl) k)"
    by blast
  from write_multiple_coils_result [OF run] sl obtain sl2 where
    s2: "s2 = s\<lparr>slaves := fmupd sid sl2 (slaves s)\<rparr>"
    and sl2: "sl2 = sl\<lparr>coils := coils sl2\<rparr>"
    and look2: "\<And>k. fmlookup (coils sl2) k =
                  (if word_at f 2 \<le> k \<and> k < word_at f 2 + word_at f 4
                   then Some (bit (g ! (7 + nat (k - word_at f 2) div 8)) (nat (k - word_at f 2) mod 8))
                   else fmlookup (coils sl) k)"
    unfolding header by auto
  have "fmlookup (coils sl1) k = fmlookup (coils sl2) k" for k
  proof (cases "word_at f 2 \<le> k \<and> k < word_at f 2 + word_at f 4")
    case True
    then have "nat (k - word_at f 2) < nat (word_at f 4)"
      by simp
    from agree [OF this] True show ?thesis
      by (simp only: look1 look2 if_True)
  next
    case False
    then show ?thesis
      by (simp only: look1 look2 if_False)
  qed
  then have "coils sl1 = coils sl2"
    by (rule fmap_ext)
  with sl1 sl2 have "sl1 = sl2"
    by metis
  with s' s2 show "s2 = s'"
    by simp
qed

theorem write_multiple_coils_frame_witness:
  "\<exists>s' sl'.
     handle_write_multiple_coils example_server 1
       [0x01, 0x0F, 0x00, 0x04, 0x00, 0x03, 0x01, 0xFF, 0x3E, 0xD7] =
       Inr (Some [0x01, 0x0F, 0x00, 0x04, 0x00, 0x03, 0x54, 0x0B], s') \<and>
     fmlookup (slaves s') 1 = Some sl' \<and>
     fmlookup (coils sl') 3 = Some True \<and>
     fmlookup (coils sl') 4 = Some True \<and>
     fmlookup (coils sl') 5 = Some True \<and>
     fmlookup (coils sl') 6 = Some True \<and>
     fmlookup (coils sl') 7 = None \<and>
     fmlookup (coils sl') 2 = Some False \<and>
     holding_registers sl' = holding_registers create_example_slave \<and>
     handle_write_multiple_coils example_server 1
       [0x01, 0x0F, 0x00, 0x04, 0x00, 0x03, 0x01, 0x07, 0x3F, 0x55] =
       Inr (Some [0x01, 0x0F, 0x00, 0x04, 0x00, 0x03, 0x54, 0x0B], s')"
proof -
  let ?f = "[0x01, 0x0F, 0x00, 0x04, 0x00, 0x03, 0x01, 0xFF, 0x3E, 0xD7] :: byte list"
  let ?r = "[0x01, 0x0F, 0x00, 0x04, 0x00, 0x03, 0x54, 0x0B] :: byte list"
  let ?g = "[0x01, 0x0F, 0x00, 0x04, 0x00, 0x03, 0x01, 0x07, 0x3F, 0x55] :: byte list"
  have "map_sum id fst (handle_write_multiple_coils example_server 1 ?f) = Inr (Some ?r)"
    by code_simp
  then have "\<exists>s'. handle_write_multiple_coils example_server 1 ?f = Inr (Some ?r, s')"
    by (cases "handle_write_multiple_coils example_server 1 ?f") auto
  then obtain s' where run: "handle_write_multiple_coils example_server 1 ?f = Inr (Some ?r, s')"
    by blast
  from write_multiple_coils_frame [OF run, THEN conjunct1] obtain sl sl' where
    sl: "fmlookup (slaves example_server) 1 = Some sl"
    and s': "s' = example_server\<lparr>slaves := fmupd 1 sl' (slaves example_server)\<rparr>"
    and rest: "sl' = sl\<lparr>coils := coils sl'\<rparr>"
    and look: "\<And>k. fmlookup (coils sl') k =
                  (if word_at ?f 2 \<le> k \<and> k < word_at ?f 2 + word_at ?f 4
                   then Some (bit (?f ! (7 + nat (k - word_at ?f 2) div 8)) (nat (k - word_at ?f 2) mod 8))
                   else fmlookup (coils sl) k)"
    by blast
  have sl_eq: "sl = create_example_slave"
    using sl by (simp add: example_server_def)
  have words: "word_at ?f 2 = 4" "word_at ?f 4 = 3"
    by (simp_all add: word_at_def)
  have old: "fmlookup (coils create_example_slave) 3 = Some True"
    "fmlookup (coils create_example_slave) 7 = None"
    "fmlookup (coils create_example_slave) 2 = Some False"
    by (simp_all add: create_example_slave_def)
  have "fmlookup (slaves s') 1 = Some sl'"
    by (simp add: s')
  moreover have "fmlookup (coils sl') 3 = Some True" "fmlookup (coils sl') 7 = None"
    "fmlookup (coils sl') 2 = Some False"
    using old by (simp_all add: look words sl_eq)
  moreover have "fmlookup (coils sl') 4 = Some True" "fmlookup (coils sl') 5 = Some True"
    "fmlookup (coils sl') 6 = Some True"
    by (simp_all add: look words)
  moreover have "holding_registers sl' = holding_registers create_example_slave"
    using rest sl_eq by (metis (no_types) SlaveConfig.select_convs(4) SlaveConfig.surjective SlaveConfig.update_convs(6))
  moreover have "handle_write_multiple_coils example_server 1 ?g = Inr (Some ?r, s')"
  proof -
    have "map_sum id fst (handle_write_multiple_coils example_server 1 ?g) = Inr (Some ?r)"
      by code_simp
    then obtain s2 where run2: "handle_write_multiple_coils example_server 1 ?g = Inr (Some ?r, s2)"
      by (cases "handle_write_multiple_coils example_server 1 ?g") auto
    have header: "word_at ?g 2 = word_at ?f 2" "word_at ?g 4 = word_at ?f 4"
      by (simp_all add: word_at_def)
    have agree: "\<forall>i < nat (word_at ?f 4).
                   bit (?g ! (7 + i div 8)) (i mod 8) = bit (?f ! (7 + i div 8)) (i mod 8)"
      by (auto simp add: words less_Suc_eq numeral_3_eq_3)
    from write_multiple_coils_frame [OF run, THEN conjunct2, rule_format, of ?g ?r s2]
      run2 header agree
    have "s2 = s'" by blast
    with run2 show ?thesis by simp
  qed
  ultimately show ?thesis
    using run by blast
qed

section \<open>What the dispatcher writes, and reads at any address\<close>

lemma frame_with_crc_function_code:
  "frame_with_crc (a # b # xs) = Inr resp \<Longrightarrow> resp ! 1 = word_of_int b"
  by (auto simp add: frame_with_crc_def bytes_py_def calculate_crc_Inr split: if_splits)

lemma exception_frame_nth:
  "exception_frame sid fc code ! 1 = word_of_int fc OR 0x80"
  "exception_frame sid fc code ! 2 = word_of_int code"
  by (simp_all add: exception_frame_def Let_def)

lemma handle_read_holding_registers_written:
  assumes "handle_read_holding_registers s sid f = Inr (r, s')" and "0 \<le> sid" "sid < 256"
  shows "port_written s' = port_written s \<or>
         port_written s' = port_written s @ [exception_frame sid 0x03 0x03] \<or>
         port_written s' = port_written s @ [exception_frame sid 0x03 0x04]"
    and "port_open s' = port_open s"
    and "r = Some resp \<Longrightarrow> resp ! 1 = 0x03"
  using assms
  by (auto simp add: handle_read_holding_registers_def Let_def send_exception_response_eq
        split: if_splits option.splits sum.splits dest: frame_with_crc_function_code)

lemma handle_read_input_registers_written:
  assumes "handle_read_input_registers s sid f = Inr (r, s')" and "0 \<le> sid" "sid < 256"
  shows "port_written s' = port_written s \<or>
         port_written s' = port_written s @ [exception_frame sid 0x04 0x03] \<or>
         port_written s' = port_written s @ [exception_frame sid 0x04 0x04]"
    and "port_open s' = port_open s"
    and "r = Some resp \<Longrightarrow> resp ! 1 = 0x04"
  using assms
  by (auto simp add: handle_read_input_registers_def Let_def send_exception_response_eq
        split: if_splits option.splits sum.splits dest: frame_with_crc_function_code)

lemma handle_read_coils_written:
  assumes "handle_read_coils s sid f = Inr (r, s')" and "0 \<le> sid" "sid < 256"
  shows "port_written s' = port_written s \<or>
         port_written s' = port_written s @ [exception_frame sid 0x01 0x03] \<or>
         port_written s' = port_written s @ [exception_frame sid 0x01 0x04]"
    and "port_open s' = port_open s"
    and "r = Some resp \<Longrightarrow> resp ! 1 = 0x01"
  using assms
  by (auto simp add: handle_read_coils_def Let_def send_exception_response_eq
        split: if_splits option.splits sum.splits dest: frame_with_crc_function_code)

lemma handle_read_discrete_inputs_written:
  assumes "handle_read_discrete_inputs s sid f = Inr (r, s')" and "0 \<le> sid" "sid < 256"
  shows "port_written s' = port_written s \<or>
         port_written s' = port_written s @ [exception_frame sid 0x02 0x03] \<or>
         port_written s' = port_written s @ [exception_frame sid 0x02 0x04]"
    and "port_open s' = port_open s"
    and "r = Some resp \<Longrightarrow> resp ! 1 = 0x02"
  using assms
  by (auto simp add: handle_read_discrete_inputs_def Let_def send_exception_response_eq
        split: if_splits option.splits sum.splits dest: frame_with_crc_function_code)

lemma echo_function_code:
  "8 \<le> length f \<Longrightarrow> (take (length f - 2) f @ c) ! 1 = f ! 1"
  by (auto simp add: nth_append)

lemma handle_write_single_coil_written:
  assumes "handle_write_single_coil s sid f = Inr (r, s')" and "0 \<le> sid" "sid < 256"
  shows "port_written s' = port_written s \<or>
         port_written s' = port_written s @ [exception_frame sid 0x05 0x03] \<or>
         port_written s' = port_written s @ [exception_frame sid 0x05 0x04]"
    and "port_open s' = port_open s"
    and "r = Some resp \<Longrightarrow> resp ! 1 = f ! 1"
  using assms
  by (auto simp add: handle_write_single_coil_def Let_def send_exception_response_eq
        calculate_crc_Inr echo_function_code
        split: if_splits option.splits sum.splits simp del: One_nat_def)

lemma handle_write_single_register_written:
  assumes "handle_write_single_register s sid f = Inr (r, s')" and "0 \<le> sid" "sid < 256"
  shows "port_written s' = port_written s \<or>
         port_written s' = port_written s @ [exception_frame sid 0x06 0x03] \<or>
         port_written s' = port_written s @ [exception_frame sid 0x06 0x04]"
    and "port_open s' = port_open s"
    and "r = Some resp \<Longrightarrow> resp ! 1 = f ! 1"
  using assms
  by (auto simp add: handle_write_single_register_def Let_def send_exception_response_eq
        calculate_crc_Inr echo_function_code
        split: if_splits option.splits sum.splits simp del: One_nat_def)

lemma handle_write_multiple_coils_written:
  assumes "handle_write_multiple_coils s sid f = Inr (r, s')" and "0 \<le> sid" "sid < 256"
  shows "port_written s' = port_written s \<or>
         port_written s' = port_written s @ [exception_frame sid 0x0F 0x03] \<or>
         port_written s' = port_written s @ [exception_frame sid 0x0F 0x04]"
    and "port_open s' = port_open s"
    and "r = Some resp \<Longrightarrow> resp ! 1 = 0x0F"
  using assms
  by (auto simp add: handle_write_multiple_coils_def Let_def send_exception_response_eq
        split: if_splits option.splits sum.splits prod.splits dest: frame_with_crc_function_code)

lemma handle_write_multiple_registers_written:
  assumes "handle_write_multiple_registers s sid f = Inr (r, s')" and "0 \<le> sid" "sid < 256"
  shows "port_written s' = port_written s \<or>
         port_written s' = port_written s @ [exception_frame sid 0x10 0x03] \<or>
         port_written s' = port_written s @ [exception_frame sid 0x10 0x04]"
    and "port_open s' = port_open s"
    and "r = Some resp \<Longrightarrow> resp ! 1 = 0x10"
  using assms
  by (auto simp add: handle_write_multiple_registers_def Let_def send_exception_response_eq
        split: if_splits option.splits sum.splits prod.splits dest: frame_with_crc_function_code)

lemma handle_read_file_records_written:
  assumes "handle_read_file_records s sid f = Inr (r, s')" and "0 \<le> sid" "sid < 256"
  shows "port_written s' = port_written s \<or>
         port_written s' = port_written s @ [exception_frame sid 0x14 0x03] \<or>
         port_written s' = port_written s @ [exception_frame sid 0x14 0x04]"
    and "port_open s' = port_open s"
    and "r = Some resp \<Longrightarrow> resp ! 1 = 0x14"
  using assms
  by (auto simp add: handle_read_file_records_def Let_def send_exception_response_eq
        split: if_splits option.splits sum.splits dest: frame_with_crc_function_code)

lemma handler_for_written:
  assumes "handler_for (uint (f ! 1)) = Some handle"
    and "handle s sid f = Inr (r, s')" and "0 \<le> sid" "sid < 256"
  shows "port_written s' = port_written s \<or>
         port_written s' = port_written s @ [exception_frame sid (uint (f ! 1)) 0x03] \<or>
         port_written s' = port_written s @ [exception_frame sid (uint (f ! 1)) 0x04]"
    and "port_open s' = port_open s"
    and "r = Some resp \<Longrightarrow> \<not> bit (resp ! 1) 7"
proof -
  from assms(1) consider
      "uint (f ! 1) = 0x03" "handle = handle_read_holding_registers"
    | "uint (f ! 1) = 0x04" "handle = handle_read_input_registers"
    | "uint (f ! 1) = 0x01" "handle = handle_read_coils"
    | "uint (f ! 1) = 0x02" "handle = handle_read_discrete_inputs"
    | "uint (f ! 1) = 0x05" "handle = handle_write_single_coil"
    | "uint (f ! 1) = 0x06" "handle = handle_write_single_register"
    | "uint (f ! 1) = 0x0F" "handle = handle_write_multiple_coils"
    | "uint (f ! 1) = 0x10" "handle = handle_write_multiple_registers"
    | "uint (f ! 1) = 0x14" "handle = handle_read_file_records"
    by (auto simp add: handler_for_def split: if_splits simp del: One_nat_def)
  then have "(port_written s' = port_written s \<or>
         port_written s' = port_written s @ [exception_frame sid (uint (f ! 1)) 0x03] \<or>
         port_written s' = port_written s @ [exception_frame sid (uint (f ! 1)) 0x04]) \<and>
         port_open s' = port_open s \<and> (r = Some resp \<longrightarrow> \<not> bit (resp ! 1) 7)"
  proof cases
    case 1
    with assms(2) have run: "handle_read_holding_registers s sid f = Inr (r, s')"
      by simp
    with 1(1) handle_read_holding_registers_written [OF run assms(3,4)]
    show ?thesis by auto
  next
    case 2
    with assms(2) have run: "handle_read_input_registers s sid f = Inr (r, s')"
      by simp
    with 2(1) handle_read_input_registers_written [OF run assms(3,4)]
    show ?thesis by auto
  next
    case 3
    with assms(2) have run: "handle_read_coils s sid f = Inr (r, s')"
      by simp
    with 3(1) handle_read_coils_written [OF run assms(3,4)]
    show ?thesis by auto
  next
    case 4
    with assms(2) have run: "handle_read_discrete_inputs s sid f = Inr (r, s')"
      by simp
    with 4(1) handle_read_discrete_inputs_written [OF run assms(3,4)]
    show ?thesis by auto
  next
    case 5
    with assms(2) have run: "handle_write_single_coil s sid f = Inr (r, s')"
      by simp
    from 5(1) have "f ! 1 = 0x05"
      by (metis word_of_int_uint word_of_int_numeral)
    with 5(1) handle_write_single_coil_written [OF run assms(3,4)]
    show ?thesis by (auto simp del: One_nat_def)
  next
    case 6
    with assms(2) have run: "handle_write_single_register s sid f = Inr (r, s')"
      by simp
    from 6(1) have "f ! 1 = 0x06"
      by (metis word_of_int_uint word_of_int_numeral)
    with 6(1) handle_write_single_register_written [OF run assms(3,4)]
    show ?thesis by (auto simp del: One_nat_def)
  next
    case 7
    with assms(2) have run: "handle_write_multiple_coils s sid f = Inr (r, s')"
      by simp
    with 7(1) handle_write_multiple_coils_written [OF run assms(3,4)]
    show ?thesis by auto
  next
    case 8
    with assms(2) have run: "handle_write_multiple_registers s sid f = Inr (r, s')"
      by simp
    with 8(1) handle_write_multiple_registers_written [OF run assms(3,4)]
    show ?thesis by auto
  next
    case 9
    with assms(2) have run: "handle_read_file_records s sid f = Inr (r, s')"
      by simp
    with 9(1) handle_read_file_records_written [OF run assms(3,4)]
    show ?thesis by auto
  qed
  then show "port_written s' = port_written s \<or>
         port_written s' = port_written s @ [exception_frame sid (uint (f ! 1)) 0x03] \<or>
         port_written s' = port_written s @ [exception_frame sid (uint (f ! 1)) 0x04]"
    and "port_open s' = port_open s"
    and "r = Some resp \<Longrightarrow> \<not> bit (resp ! 1) 7"
    by blast+
qed

lemma count_outcome_written:
  "port_written (count_outcome s sid r) =
     (case r of
        None \<Rightarrow> port_written s
      | Some resp \<Rightarrow> if resp \<noteq> [] \<and> port_open s then port_written s @ [resp] else port_written s)"
  by (auto simp add: count_outcome_def Let_def split: option.split)

lemma process_request_written:
  "\<exists>ws. port_written (process_request now s f) = port_written s @ ws \<and>
        (\<forall>w \<in> set ws. \<not> bit (w ! 1) 7 \<or>
           (\<exists>code \<in> {0x01, 0x03, 0x04, 0x0B}.
              w = exception_frame (uint (f ! 0)) (uint (f ! 1)) code))"
proof -
  let ?sid = "uint (f ! 0)" and ?fc = "uint (f ! 1)"
  let ?s1 = "count_request now s ?sid f"
  let ?ok = "\<lambda>w. \<not> bit (w ! 1) 7 \<or>
           (\<exists>code \<in> {0x01, 0x03, 0x04, 0x0B}. w = exception_frame ?sid ?fc code)"
  have exc: "send_exception_response t ?sid ?fc code = send_response t (exception_frame ?sid ?fc code)"
    if "0 \<le> code" "code < 256" for t code
    using that by (intro send_exception_response_eq) (simp_all add: uint_byte_less)
  have sid: "0 \<le> ?sid" "?sid < 256"
    by (simp_all add: uint_byte_less)
  show ?thesis
  proof (cases "length f < 4")
    case True
    then show ?thesis by (simp add: process_request_def)
  next
    case long: False
    show ?thesis
    proof (cases "fmlookup (slaves s) ?sid = None")
      case True
      with long have "process_request now s f = send_response ?s1 (exception_frame ?sid ?fc 0x0B)"
        by (simp add: process_request_def Let_def exc del: One_nat_def)
      then show ?thesis by simp
    next
      case conf: False
      show ?thesis
      proof (cases "validate_crc f = Inr True")
        case False
        then have "validate_crc f = Inr False"
          by (simp add: validate_crc_Inr)
        with long conf have "process_request now s f = ?s1"
          by (auto simp add: process_request_def Let_def simp del: One_nat_def)
        then show ?thesis by simp
      next
        case valid: True
        from long have len: "4 \<le> length f" by simp
        note pr = process_request_valid [OF len conf valid, of now]
        show ?thesis
        proof (cases "handler_for ?fc")
          case None
          with pr have "process_request now s f = send_response ?s1 (exception_frame ?sid ?fc 0x01)"
            by (simp add: exc del: One_nat_def)
          then show ?thesis by simp
        next
          case (Some handle)
          show ?thesis
          proof (cases "handle ?s1 ?sid f")
            case (Inl e)
            with pr Some len
            have "process_request now s f = send_response ?s1 (exception_frame ?sid ?fc 0x04)"
              by (simp add: server_device_failure_def exc del: One_nat_def)
            then show ?thesis by simp
          next
            case (Inr p)
            then obtain r s2 where run: "handle ?s1 ?sid f = Inr (r, s2)"
              by (cases p) simp
            note h = handler_for_written [OF Some run sid]
            from h(1) have first: "\<exists>ws. port_written s2 = port_written s @ ws \<and> (\<forall>w \<in> set ws. ?ok w)"
              by auto
            from pr Some run have fin: "process_request now s f = count_outcome s2 ?sid r"
              by (simp del: One_nat_def)
            have "\<exists>ws. port_written (count_outcome s2 ?sid r) = port_written s2 @ ws \<and>
                    (\<forall>w \<in> set ws. ?ok w)"
            proof (cases r)
              case None
              then show ?thesis by simp
            next
              case (Some resp)
              with h(3) [of resp] show ?thesis
                by (simp add: count_outcome_written del: One_nat_def)
            qed
            with first fin show ?thesis
              by (metis (no_types, lifting) UnE append.assoc set_append)
          qed
        qed
      qed
    qed
  qed
qed

lemma or_push_bit_1: "bit (v OR push_bit i 1) n = (bit v n \<or> n = i)" for v :: int
  by (auto simp add: bit_or_iff bit_exp_iff)

lemma push_bit_1_less_256: "i < 8 \<Longrightarrow> (push_bit i 1 :: int) < 2 ^ 8"
  unfolding push_bit_eq_mult mult_1 by (rule power_strict_increasing) simp_all

lemma foldl_or_bit:
  "bit (foldl (\<lambda>v i. if P i then v OR push_bit i 1 else v) (v0 :: int) is) n =
     (bit v0 n \<or> (n \<in> set is \<and> P n))"
proof (induction "is" arbitrary: v0)
  case Nil
  then show ?case by simp
next
  case (Cons i "is")
  show ?case
  proof (cases "P i")
    case True
    with Cons.IH [of "v0 OR push_bit i 1"] or_push_bit_1 [of v0 i n] show ?thesis
      by (simp only: foldl.simps if_True set_simps insert_iff) blast
  next
    case False
    with Cons.IH [of v0] show ?thesis
      by (simp only: foldl.simps if_False set_simps insert_iff) blast
  qed
qed

lemma foldl_or_range:
  fixes v0 :: int
  assumes "0 \<le> v0" "v0 < 2 ^ 8" "\<forall>i \<in> set is. i < 8"
  shows "0 \<le> foldl (\<lambda>v i. if P i then v OR push_bit i 1 else v) v0 is \<and>
         foldl (\<lambda>v i. if P i then v OR push_bit i 1 else v) v0 is < 2 ^ 8"
  using assms
proof (induction "is" arbitrary: v0)
  case Nil
  then show ?case by simp
next
  case (Cons i "is")
  from Cons.prems have i: "i < 8" and rest: "\<forall>i \<in> set is. i < 8"
    by simp_all
  have up: "v0 OR push_bit i 1 < 2 ^ 8"
    using Cons.prems(1,2) push_bit_1_less_256 [OF i] by (rule OR_upper)
  have lo: "0 \<le> v0 OR push_bit i 1"
    using Cons.prems(1) by (simp only: or_nonnegative_int_iff push_bit_nonnegative_int_iff) simp
  show ?case
  proof (cases "P i")
    case True
    with Cons.IH [OF lo up rest] show ?thesis
      by (simp only: foldl.simps if_True)
  next
    case False
    with Cons.IH [OF Cons.prems(1,2) rest] show ?thesis
      by (simp only: foldl.simps if_False)
  qed
qed

lemma read_bits_byte_bit:
  "bit (read_bits_byte bits a q j) n =
     (n < 8 \<and> a + j * 8 + int n < a + q \<and> fmlookup bits (a + j * 8 + int n) = Some True)"
proof -
  have "bit (read_bits_byte bits a q j) n =
          (bit (0 :: int) n \<or>
           (n \<in> set [0 ..< 8] \<and>
            (a + j * 8 + int n < a + q \<and> fmlookup bits (a + j * 8 + int n) = Some True)))"
    unfolding read_bits_byte_def Let_def by (rule foldl_or_bit)
  then show ?thesis by simp
qed

lemma read_bits_byte_range:
  "0 \<le> read_bits_byte bits a q j \<and> read_bits_byte bits a q j < 256"
proof -
  have "0 \<le> read_bits_byte bits a q j \<and> read_bits_byte bits a q j < 2 ^ 8"
    unfolding read_bits_byte_def Let_def by (rule foldl_or_range) simp_all
  then show ?thesis by simp
qed

lemma read_bits_range:
  "list_all (\<lambda>x. 0 \<le> x \<and> x < 256) (read_bits bits a q bc)"
  using read_bits_byte_range by (simp add: read_bits_def list_all_iff)

lemma read_bits_length: "0 \<le> bc \<Longrightarrow> length (read_bits bits a q bc) = nat bc"
  by (simp add: read_bits_def)

lemma read_bits_nth:
  "0 \<le> j \<Longrightarrow> j < bc \<Longrightarrow> read_bits bits a q bc ! nat j = read_bits_byte bits a q j"
  by (simp add: read_bits_def)

lemma read_bits_bit:
  assumes "0 \<le> i" "i < q"
  shows "bit (word_of_int (read_bits bits a q ((q + 7) div 8) ! nat (i div 8)) :: byte) (nat (i mod 8)) =
           (fmlookup bits (a + i) = Some True)"
proof -
  have j: "0 \<le> i div 8" "i div 8 < (q + 7) div 8"
    using assms by linarith+
  have n: "nat (i mod 8) < 8"
    by simp
  have addr: "a + i div 8 * 8 + int (nat (i mod 8)) = a + i"
    by simp
  have "bit (word_of_int (read_bits_byte bits a q (i div 8)) :: byte) (nat (i mod 8)) =
          (fmlookup bits (a + i) = Some True)"
    unfolding bit_word_of_int_iff read_bits_byte_bit addr using assms n by simp
  then show ?thesis
    by (simp only: read_bits_nth [OF j])
qed

lemma upto_nth: "0 \<le> i \<Longrightarrow> i < q \<Longrightarrow> [a .. a + q - 1] ! nat i = a + i" for a q i :: int
  by (simp add: nth_upto)

lemma concat_pairs_length:
  "(\<And>x. length (g x) = 2) \<Longrightarrow> length (concat (map g xs)) = 2 * length xs"
  by (induction xs) simp_all

lemma concat_pairs_nth:
  assumes "\<And>x. length (g x) = 2" and "i < length xs"
  shows "concat (map g xs) ! (2 * i) = g (xs ! i) ! 0 \<and>
         concat (map g xs) ! (2 * i + 1) = g (xs ! i) ! 1"
  using assms(2)
proof (induction xs arbitrary: i)
  case Nil
  then show ?case by simp
next
  case (Cons x xs)
  show ?case
  proof (cases i)
    case 0
    then show ?thesis using assms(1) [of x] by (simp add: nth_append)
  next
    case (Suc j)
    with Cons.prems have "j < length xs" by simp
    from Cons.IH [OF this] Suc show ?thesis
      using assms(1) [of x] by (simp add: nth_append)
  qed
qed

lemma read_registers_length:
  "0 \<le> q \<Longrightarrow> length (read_registers registers a q) = nat (2 * q)"
  unfolding read_registers_def
  by (subst concat_pairs_length) (auto split: option.split)

lemma read_registers_nth:
  assumes "0 \<le> i" "i < q"
  shows "[read_registers registers a q ! nat (2 * i), read_registers registers a q ! nat (2 * i + 1)] =
           (case fmlookup registers (a + i) of
              None \<Rightarrow> [0, 0]
            | Some v \<Rightarrow> [drop_bit 8 v AND 0xFF, v AND 0xFF])"
proof -
  let ?g = "\<lambda>addr. case fmlookup registers addr of
                            Some v \<Rightarrow> [drop_bit 8 v AND 0xFF, v AND 0xFF]
                          | None \<Rightarrow> [0x00, 0x00]"
  have two: "length (?g x) = 2" for x
    by (simp split: option.split)
  have i: "nat i < length [a .. a + q - 1]"
    using assms by simp
  have idx: "nat (2 * i) = 2 * nat i" "nat (2 * i + 1) = 2 * nat i + 1"
    using assms by simp_all
  from concat_pairs_nth [of ?g "nat i" "[a .. a + q - 1]", OF two i] upto_nth [OF assms, of a]
  show ?thesis
    unfolding read_registers_def idx by (simp split: option.split)
qed

lemma handle_read_input_registers_ok:
  assumes "8 \<le> length f" and "0 \<le> sid" "sid < 256" and "fmlookup (slaves s) sid = Some sl"
    and "1 \<le> word_at f 4" "word_at f 4 \<le> 125"
  shows "handle_read_input_registers s sid f =
           Inr (Some (map word_of_int
                        ([sid, 0x04, word_at f 4 * 2] @
                         read_registers (input_registers sl) (word_at f 2) (word_at f 4)) @
                      spec_crc_emit (spec_crc16 (map word_of_int
                        ([sid, 0x04, word_at f 4 * 2] @
                         read_registers (input_registers sl) (word_at f 2) (word_at f 4))))), s)"
proof -
  have "list_all (\<lambda>x. 0 \<le> x \<and> x < 256)
          ([sid, 0x04, word_at f 4 * 2] @
           read_registers (input_registers sl) (word_at f 2) (word_at f 4))"
    using assms read_registers_range by simp
  from frame_with_crc_Inr [OF this] assms show ?thesis
    by (simp add: handle_read_input_registers_def Let_def)
qed

lemma handle_read_coils_ok:
  assumes "8 \<le> length f" and "0 \<le> sid" "sid < 256" and "fmlookup (slaves s) sid = Some sl"
    and "1 \<le> word_at f 4" "word_at f 4 \<le> 2000"
  shows "handle_read_coils s sid f =
           Inr (Some (map word_of_int
                        ([sid, 0x01, (word_at f 4 + 7) div 8] @
                         read_bits (coils sl) (word_at f 2) (word_at f 4) ((word_at f 4 + 7) div 8)) @
                      spec_crc_emit (spec_crc16 (map word_of_int
                        ([sid, 0x01, (word_at f 4 + 7) div 8] @
                         read_bits (coils sl) (word_at f 2) (word_at f 4)
                           ((word_at f 4 + 7) div 8))))), s)"
proof -
  have "0 \<le> (word_at f 4 + 7) div 8" "(word_at f 4 + 7) div 8 < 256"
    using assms(5,6) by linarith+
  then have "list_all (\<lambda>x. 0 \<le> x \<and> x < 256)
          ([sid, 0x01, (word_at f 4 + 7) div 8] @
           read_bits (coils sl) (word_at f 2) (word_at f 4) ((word_at f 4 + 7) div 8))"
    using assms(2,3) read_bits_range by simp
  from frame_with_crc_Inr [OF this] assms show ?thesis
    by (simp add: handle_read_coils_def Let_def)
qed

lemma handle_read_discrete_inputs_ok:
  assumes "8 \<le> length f" and "0 \<le> sid" "sid < 256" and "fmlookup (slaves s) sid = Some sl"
    and "1 \<le> word_at f 4" "word_at f 4 \<le> 2000"
  shows "handle_read_discrete_inputs s sid f =
           Inr (Some (map word_of_int
                        ([sid, 0x02, (word_at f 4 + 7) div 8] @
                         read_bits (discrete_inputs sl) (word_at f 2) (word_at f 4)
                           ((word_at f 4 + 7) div 8)) @
                      spec_crc_emit (spec_crc16 (map word_of_int
                        ([sid, 0x02, (word_at f 4 + 7) div 8] @
                         read_bits (discrete_inputs sl) (word_at f 2) (word_at f 4)
                           ((word_at f 4 + 7) div 8))))), s)"
proof -
  have "0 \<le> (word_at f 4 + 7) div 8" "(word_at f 4 + 7) div 8 < 256"
    using assms(5,6) by linarith+
  then have "list_all (\<lambda>x. 0 \<le> x \<and> x < 256)
          ([sid, 0x02, (word_at f 4 + 7) div 8] @
           read_bits (discrete_inputs sl) (word_at f 2) (word_at f 4) ((word_at f 4 + 7) div 8))"
    using assms(2,3) read_bits_range by simp
  from frame_with_crc_Inr [OF this] assms show ?thesis
    by (simp add: handle_read_discrete_inputs_def Let_def)
qed

lemma process_read_registers:
  assumes "8 \<le> length f" and "validate_crc f = Inr True"
    and "fmlookup (slaves s) (uint (f ! 0)) = Some sl"
    and "uint (f ! 1) = 0x03 \<and> registers = holding_registers sl \<or>
         uint (f ! 1) = 0x04 \<and> registers = input_registers sl"
    and "1 \<le> word_at f 4" "word_at f 4 \<le> 125"
  shows "process_request now s f =
           count_outcome (count_request now s (uint (f ! 0)) f) (uint (f ! 0))
             (Some ([f ! 0, f ! 1, word_of_int (word_at f 4 * 2)] @
                    map word_of_int (read_registers registers (word_at f 2) (word_at f 4)) @
                    spec_crc_emit (spec_crc16
                      ([f ! 0, f ! 1, word_of_int (word_at f 4 * 2)] @
                       map word_of_int (read_registers registers (word_at f 2) (word_at f 4))))))"
proof -
  have len: "4 \<le> length f" using assms(1) by simp
  have sid: "0 \<le> uint (f ! 0)" "uint (f ! 0) < 256"
    by (simp_all add: uint_byte_less)
  have conf: "fmlookup (slaves s) (uint (f ! 0)) \<noteq> None"
    using assms(3) by simp
  have conf': "fmlookup (slaves (count_request now s (uint (f ! 0)) f)) (uint (f ! 0)) = Some sl"
    using assms(3) by simp
  from assms(4) show ?thesis
  proof (elim disjE conjE)
    assume a: "uint (f ! 1) = 0x03" "registers = holding_registers sl"
    from a(1) have "f ! 1 = 0x03"
      by (metis word_of_int_uint word_of_int_numeral word_of_int_1)
    then show ?thesis
      by (simp add: process_request_valid [OF len conf assms(2)] handler_for_def a
          handle_read_holding_registers_ok [OF assms(1) sid conf' assms(5,6)] del: One_nat_def)
  next
    assume a: "uint (f ! 1) = 0x04" "registers = input_registers sl"
    from a(1) have "f ! 1 = 0x04"
      by (metis word_of_int_uint word_of_int_numeral word_of_int_1)
    then show ?thesis
      by (simp add: process_request_valid [OF len conf assms(2)] handler_for_def a
          handle_read_input_registers_ok [OF assms(1) sid conf' assms(5,6)] del: One_nat_def)
  qed
qed

lemma process_read_bits:
  assumes "8 \<le> length f" and "validate_crc f = Inr True"
    and "fmlookup (slaves s) (uint (f ! 0)) = Some sl"
    and "uint (f ! 1) = 0x01 \<and> bits = coils sl \<or>
         uint (f ! 1) = 0x02 \<and> bits = discrete_inputs sl"
    and "1 \<le> word_at f 4" "word_at f 4 \<le> 2000"
  shows "process_request now s f =
           count_outcome (count_request now s (uint (f ! 0)) f) (uint (f ! 0))
             (Some ([f ! 0, f ! 1, word_of_int ((word_at f 4 + 7) div 8)] @
                    map word_of_int
                      (read_bits bits (word_at f 2) (word_at f 4) ((word_at f 4 + 7) div 8)) @
                    spec_crc_emit (spec_crc16
                      ([f ! 0, f ! 1, word_of_int ((word_at f 4 + 7) div 8)] @
                       map word_of_int
                         (read_bits bits (word_at f 2) (word_at f 4) ((word_at f 4 + 7) div 8))))))"
proof -
  have len: "4 \<le> length f" using assms(1) by simp
  have sid: "0 \<le> uint (f ! 0)" "uint (f ! 0) < 256"
    by (simp_all add: uint_byte_less)
  have conf: "fmlookup (slaves s) (uint (f ! 0)) \<noteq> None"
    using assms(3) by simp
  have conf': "fmlookup (slaves (count_request now s (uint (f ! 0)) f)) (uint (f ! 0)) = Some sl"
    using assms(3) by simp
  from assms(4) show ?thesis
  proof (elim disjE conjE)
    assume a: "uint (f ! 1) = 0x01" "bits = coils sl"
    from a(1) have "f ! 1 = 0x01"
      by (metis word_of_int_uint word_of_int_numeral word_of_int_1)
    then show ?thesis
      by (simp add: process_request_valid [OF len conf assms(2)] handler_for_def a
          handle_read_coils_ok [OF assms(1) sid conf' assms(5,6)] del: One_nat_def)
  next
    assume a: "uint (f ! 1) = 0x02" "bits = discrete_inputs sl"
    from a(1) have "f ! 1 = 0x02"
      by (metis word_of_int_uint word_of_int_numeral word_of_int_1)
    then show ?thesis
      by (simp add: process_request_valid [OF len conf assms(2)] handler_for_def a
          handle_read_discrete_inputs_ok [OF assms(1) sid conf' assms(5,6)] del: One_nat_def)
  qed
qed

lemma read_registers_response:
  assumes "1 \<le> q"
  shows "length (map word_of_int (read_registers registers a q) :: byte list) = nat (2 * q)"
    and "0 \<le> i \<Longrightarrow> i < q \<Longrightarrow>
           [(map word_of_int (read_registers registers a q) :: byte list) ! nat (2 * i),
            map word_of_int (read_registers registers a q) ! nat (2 * i + 1)] =
           (case fmlookup registers (a + i) of
              None \<Rightarrow> [0, 0]
            | Some v \<Rightarrow> [word_of_int (drop_bit 8 v AND 0xFF), word_of_int (v AND 0xFF)])"
proof -
  have len: "length (read_registers registers a q) = nat (2 * q)"
    using assms by (simp add: read_registers_length)
  then show "length (map word_of_int (read_registers registers a q) :: byte list) = nat (2 * q)"
    by simp
  assume i: "0 \<le> i" "i < q"
  then have "nat (2 * i) < length (read_registers registers a q)"
    "nat (2 * i + 1) < length (read_registers registers a q)"
    unfolding len by simp_all
  then have "[(map word_of_int (read_registers registers a q) :: byte list) ! nat (2 * i),
            map word_of_int (read_registers registers a q) ! nat (2 * i + 1)] =
          map word_of_int
            [read_registers registers a q ! nat (2 * i), read_registers registers a q ! nat (2 * i + 1)]"
    by simp
  also have "\<dots> = (case fmlookup registers (a + i) of
              None \<Rightarrow> [0, 0]
            | Some v \<Rightarrow> [word_of_int (drop_bit 8 v AND 0xFF), word_of_int (v AND 0xFF)])"
    unfolding read_registers_nth [OF i] by (simp split: option.split)
  finally show "[(map word_of_int (read_registers registers a q) :: byte list) ! nat (2 * i),
            map word_of_int (read_registers registers a q) ! nat (2 * i + 1)] =
           (case fmlookup registers (a + i) of
              None \<Rightarrow> [0, 0]
            | Some v \<Rightarrow> [word_of_int (drop_bit 8 v AND 0xFF), word_of_int (v AND 0xFF)])" .
qed

lemma read_bits_response:
  assumes "1 \<le> q"
  shows "length (map word_of_int (read_bits bits a q ((q + 7) div 8)) :: byte list) =
           nat ((q + 7) div 8)"
    and "0 \<le> i \<Longrightarrow> i < q \<Longrightarrow>
           bit ((map word_of_int (read_bits bits a q ((q + 7) div 8)) :: byte list) ! nat (i div 8))
               (nat (i mod 8)) =
           (fmlookup bits (a + i) = Some True)"
proof -
  have bc: "0 \<le> (q + 7) div 8"
    using assms by linarith
  have len: "length (read_bits bits a q ((q + 7) div 8)) = nat ((q + 7) div 8)"
    by (rule read_bits_length [OF bc])
  then show "length (map word_of_int (read_bits bits a q ((q + 7) div 8)) :: byte list) =
           nat ((q + 7) div 8)"
    by simp
  assume i: "0 \<le> i" "i < q"
  then have "0 \<le> i div 8" "i div 8 < (q + 7) div 8"
    by linarith+
  then have "nat (i div 8) < length (read_bits bits a q ((q + 7) div 8))"
    unfolding len by simp
  then have "(map word_of_int (read_bits bits a q ((q + 7) div 8)) :: byte list) ! nat (i div 8) =
          word_of_int (read_bits bits a q ((q + 7) div 8) ! nat (i div 8))"
    by (rule nth_map)
  then show "bit ((map word_of_int (read_bits bits a q ((q + 7) div 8)) :: byte list) ! nat (i div 8))
               (nat (i mod 8)) =
           (fmlookup bits (a + i) = Some True)"
    by (simp only: read_bits_bit [OF i])
qed

text \<open>
  Claim C10. Whatever the frame and the server, no frame the dispatcher writes is an
  exception response (function code byte with bit 7 set) that carries the exception code
  \<open>0x02\<close>. A read request with a valid CRC for a configured slave and a quantity in range
  is answered with the data, whatever its start address: nothing bounds
  \<open>start_address + quantity\<close>, so a range that runs past 65535 is read like any other. In
  the response of the register readers (\<open>0x03\<close>, \<open>0x04\<close>) the two data bytes of register
  \<open>i\<close> are zero when the address \<open>start_address + i\<close> is not in the sub-store, and the high
  and low byte of the stored value otherwise; in the response of the bit readers (\<open>0x01\<close>,
  \<open>0x02\<close>) bit \<open>i mod 8\<close> of data byte \<open>i div 8\<close> is set exactly when the sub-store holds true
  at \<open>start_address + i\<close>, so an address that is not there reads as false.
\<close>

theorem no_illegal_data_address:
  "(\<exists>ws. port_written (process_request now s f) = port_written s @ ws \<and>
         (\<forall>w \<in> set ws. \<not> (bit (w ! 1) 7 \<and> w ! 2 = 0x02))) \<and>
   (8 \<le> length f \<and> validate_crc f = Inr True \<and>
    fmlookup (slaves s) (uint (f ! 0)) = Some sl \<and> port_open s \<and>
    (uint (f ! 1) = 0x03 \<and> registers = holding_registers sl \<or>
     uint (f ! 1) = 0x04 \<and> registers = input_registers sl) \<and>
    1 \<le> word_at f 4 \<and> word_at f 4 \<le> 125 \<longrightarrow>
      (\<exists>data.
         port_written (process_request now s f) =
           port_written s @
             [[f ! 0, f ! 1, word_of_int (2 * word_at f 4)] @ data @
              spec_crc_emit (spec_crc16 ([f ! 0, f ! 1, word_of_int (2 * word_at f 4)] @ data))] \<and>
         length data = nat (2 * word_at f 4) \<and>
         (\<forall>i. 0 \<le> i \<and> i < word_at f 4 \<longrightarrow>
              [data ! nat (2 * i), data ! nat (2 * i + 1)] =
                (case fmlookup registers (word_at f 2 + i) of
                   None \<Rightarrow> [0, 0]
                 | Some v \<Rightarrow> [word_of_int (drop_bit 8 v AND 0xFF), word_of_int (v AND 0xFF)])))) \<and>
   (8 \<le> length f \<and> validate_crc f = Inr True \<and>
    fmlookup (slaves s) (uint (f ! 0)) = Some sl \<and> port_open s \<and>
    (uint (f ! 1) = 0x01 \<and> bits = coils sl \<or>
     uint (f ! 1) = 0x02 \<and> bits = discrete_inputs sl) \<and>
    1 \<le> word_at f 4 \<and> word_at f 4 \<le> 2000 \<longrightarrow>
      (\<exists>data.
         port_written (process_request now s f) =
           port_written s @
             [[f ! 0, f ! 1, word_of_int ((word_at f 4 + 7) div 8)] @ data @
              spec_crc_emit (spec_crc16
                ([f ! 0, f ! 1, word_of_int ((word_at f 4 + 7) div 8)] @ data))] \<and>
         length data = nat ((word_at f 4 + 7) div 8) \<and>
         (\<forall>i. 0 \<le> i \<and> i < word_at f 4 \<longrightarrow>
              bit (data ! nat (i div 8)) (nat (i mod 8)) =
                (fmlookup bits (word_at f 2 + i) = Some True))))"
proof (intro conjI impI)
  from process_request_written [of now s f] obtain ws where
    ws: "port_written (process_request now s f) = port_written s @ ws"
    and each: "\<And>w. w \<in> set ws \<Longrightarrow> \<not> bit (w ! 1) 7 \<or>
           (\<exists>code \<in> {0x01, 0x03, 0x04, 0x0B}.
              w = exception_frame (uint (f ! 0)) (uint (f ! 1)) code)"
    by blast
  have "\<not> (bit (w ! 1) 7 \<and> w ! 2 = 0x02)" if "w \<in> set ws" for w
    using each [OF that] by (auto simp add: exception_frame_nth simp del: One_nat_def)
  with ws show "\<exists>ws. port_written (process_request now s f) = port_written s @ ws \<and>
         (\<forall>w \<in> set ws. \<not> (bit (w ! 1) 7 \<and> w ! 2 = 0x02))"
    by blast
next
  assume "8 \<le> length f \<and> validate_crc f = Inr True \<and>
    fmlookup (slaves s) (uint (f ! 0)) = Some sl \<and> port_open s \<and>
    (uint (f ! 1) = 0x03 \<and> registers = holding_registers sl \<or>
     uint (f ! 1) = 0x04 \<and> registers = input_registers sl) \<and>
    1 \<le> word_at f 4 \<and> word_at f 4 \<le> 125"
  then have a: "8 \<le> length f" "validate_crc f = Inr True"
    "fmlookup (slaves s) (uint (f ! 0)) = Some sl"
    "uint (f ! 1) = 0x03 \<and> registers = holding_registers sl \<or>
     uint (f ! 1) = 0x04 \<and> registers = input_registers sl"
    "1 \<le> word_at f 4" "word_at f 4 \<le> 125" and op: "port_open s"
    by blast+
  let ?data = "map word_of_int (read_registers registers (word_at f 2) (word_at f 4)) :: byte list"
  have "port_written (process_request now s f) =
           port_written s @
             [[f ! 0, f ! 1, word_of_int (2 * word_at f 4)] @ ?data @
              spec_crc_emit (spec_crc16 ([f ! 0, f ! 1, word_of_int (2 * word_at f 4)] @ ?data))]"
    unfolding process_read_registers [OF a] using op
    by (simp add: count_outcome_written mult.commute del: One_nat_def)
  with read_registers_response [OF a(5), where registers = registers and a = "word_at f 2"]
  show "\<exists>data.
         port_written (process_request now s f) =
           port_written s @
             [[f ! 0, f ! 1, word_of_int (2 * word_at f 4)] @ data @
              spec_crc_emit (spec_crc16 ([f ! 0, f ! 1, word_of_int (2 * word_at f 4)] @ data))] \<and>
         length data = nat (2 * word_at f 4) \<and>
         (\<forall>i. 0 \<le> i \<and> i < word_at f 4 \<longrightarrow>
              [data ! nat (2 * i), data ! nat (2 * i + 1)] =
                (case fmlookup registers (word_at f 2 + i) of
                   None \<Rightarrow> [0, 0]
                 | Some v \<Rightarrow> [word_of_int (drop_bit 8 v AND 0xFF), word_of_int (v AND 0xFF)]))"
    by (intro exI [of _ ?data]) blast
next
  assume "8 \<le> length f \<and> validate_crc f = Inr True \<and>
    fmlookup (slaves s) (uint (f ! 0)) = Some sl \<and> port_open s \<and>
    (uint (f ! 1) = 0x01 \<and> bits = coils sl \<or>
     uint (f ! 1) = 0x02 \<and> bits = discrete_inputs sl) \<and>
    1 \<le> word_at f 4 \<and> word_at f 4 \<le> 2000"
  then have a: "8 \<le> length f" "validate_crc f = Inr True"
    "fmlookup (slaves s) (uint (f ! 0)) = Some sl"
    "uint (f ! 1) = 0x01 \<and> bits = coils sl \<or>
     uint (f ! 1) = 0x02 \<and> bits = discrete_inputs sl"
    "1 \<le> word_at f 4" "word_at f 4 \<le> 2000" and op: "port_open s"
    by blast+
  let ?data = "map word_of_int
      (read_bits bits (word_at f 2) (word_at f 4) ((word_at f 4 + 7) div 8)) :: byte list"
  have "port_written (process_request now s f) =
           port_written s @
             [[f ! 0, f ! 1, word_of_int ((word_at f 4 + 7) div 8)] @ ?data @
              spec_crc_emit (spec_crc16
                ([f ! 0, f ! 1, word_of_int ((word_at f 4 + 7) div 8)] @ ?data))]"
    unfolding process_read_bits [OF a] using op
    by (simp add: count_outcome_written del: One_nat_def)
  with read_bits_response [OF a(5), where bits = bits and a = "word_at f 2"]
  show "\<exists>data.
         port_written (process_request now s f) =
           port_written s @
             [[f ! 0, f ! 1, word_of_int ((word_at f 4 + 7) div 8)] @ data @
              spec_crc_emit (spec_crc16
                ([f ! 0, f ! 1, word_of_int ((word_at f 4 + 7) div 8)] @ data))] \<and>
         length data = nat ((word_at f 4 + 7) div 8) \<and>
         (\<forall>i. 0 \<le> i \<and> i < word_at f 4 \<longrightarrow>
              bit (data ! nat (i div 8)) (nat (i mod 8)) =
                (fmlookup bits (word_at f 2 + i) = Some True))"
    by (intro exI [of _ ?data]) blast
qed

theorem no_illegal_data_address_witness:
  "(\<exists>ws. port_written
           (process_request 0 example_server [0x01, 0x03, 0xFF, 0xFF, 0x00, 0x02, 0xC4, 0x2F]) =
           port_written example_server @ ws \<and>
         (\<forall>w \<in> set ws. \<not> (bit (w ! 1) 7 \<and> w ! 2 = 0x02))) \<and>
   (\<exists>data. port_written
             (process_request 0 example_server [0x01, 0x03, 0xFF, 0xFF, 0x00, 0x02, 0xC4, 0x2F]) =
             [[0x01, 0x03, 0x04] @ data @ spec_crc_emit (spec_crc16 ([0x01, 0x03, 0x04] @ data))] \<and>
           length data = 4 \<and>
           [data ! 0, data ! 1] = [0, 0] \<and> [data ! 2, data ! 3] = [0, 0]) \<and>
   (\<exists>data. port_written
             (process_request 0 example_server [0x01, 0x01, 0x00, 0x00, 0x00, 0x08, 0x3D, 0xCC]) =
             [[0x01, 0x01, 0x01] @ data @ spec_crc_emit (spec_crc16 ([0x01, 0x01, 0x01] @ data))] \<and>
           length data = 1 \<and>
           \<not> bit (data ! 0) 0 \<and> bit (data ! 0) 1 \<and> \<not> bit (data ! 0) 2 \<and> bit (data ! 0) 3 \<and>
           \<not> bit (data ! 0) 7)"
proof -
  let ?regs = "[0x01, 0x03, 0xFF, 0xFF, 0x00, 0x02, 0xC4, 0x2F] :: byte list"
  let ?bits = "[0x01, 0x01, 0x00, 0x00, 0x00, 0x08, 0x3D, 0xCC] :: byte list"
  have crcs: "validate_crc ?regs = Inr True" "validate_crc ?bits = Inr True"
    by code_simp+
  have srv: "port_open example_server" "port_written example_server = []"
    "fmlookup (slaves example_server) 1 = Some create_example_slave"
    by (simp_all add: example_server_def)
  have words: "word_at ?regs 2 = 65535" "word_at ?regs 4 = 2"
    "word_at ?bits 2 = 0" "word_at ?bits 4 = 8"
    by (simp_all add: word_at_def)
  have absent: "fmlookup (holding_registers create_example_slave) (65535 + 0) = None"
    "fmlookup (holding_registers create_example_slave) (65535 + 1) = None"
    by (simp_all add: create_example_slave_def)
  have coil: "fmlookup (coils create_example_slave) (0 + 0) \<noteq> Some True"
    "fmlookup (coils create_example_slave) (0 + 1) = Some True"
    "fmlookup (coils create_example_slave) (0 + 2) \<noteq> Some True"
    "fmlookup (coils create_example_slave) (0 + 3) = Some True"
    "fmlookup (coils create_example_slave) (0 + 7) \<noteq> Some True"
    by (simp_all add: create_example_slave_def)
  note regs = no_illegal_data_address [of 0 example_server ?regs create_example_slave
      "holding_registers create_example_slave" "coils create_example_slave"]
  note bits = no_illegal_data_address [of 0 example_server ?bits create_example_slave
      "holding_registers create_example_slave" "coils create_example_slave"]
  from regs have first: "\<exists>ws. port_written (process_request 0 example_server ?regs) =
           port_written example_server @ ws \<and>
         (\<forall>w \<in> set ws. \<not> (bit (w ! 1) 7 \<and> w ! 2 = 0x02))"
    by (rule conjunct1)
  from regs [THEN conjunct2, THEN conjunct1] crcs(1) srv words(1,2)
  obtain data where d: "port_written (process_request 0 example_server ?regs) =
             [[0x01, 0x03, 0x04] @ data @ spec_crc_emit (spec_crc16 ([0x01, 0x03, 0x04] @ data))]"
      "length data = 4"
    and each: "\<And>i. 0 \<le> i \<Longrightarrow> i < 2 \<Longrightarrow>
              [data ! nat (2 * i), data ! nat (2 * i + 1)] =
                (case fmlookup (holding_registers create_example_slave) (65535 + i) of
                   None \<Rightarrow> [0, 0]
                 | Some v \<Rightarrow> [word_of_int (drop_bit 8 v AND 0xFF), word_of_int (v AND 0xFF)])"
    by auto
  from each [of 0] each [of 1] absent
  have zeros: "[data ! 0, data ! 1] = [0, 0]" "[data ! 2, data ! 3] = [0, 0]"
    by (simp_all add: numeral_2_eq_2 numeral_3_eq_3)
  from bits [THEN conjunct2, THEN conjunct2] crcs(2) srv words(3,4)
  obtain cdata where c: "port_written (process_request 0 example_server ?bits) =
             [[0x01, 0x01, 0x01] @ cdata @ spec_crc_emit (spec_crc16 ([0x01, 0x01, 0x01] @ cdata))]"
      "length cdata = 1"
    and ceach: "\<And>i. 0 \<le> i \<Longrightarrow> i < 8 \<Longrightarrow>
              bit (cdata ! nat (i div 8)) (nat (i mod 8)) =
                (fmlookup (coils create_example_slave) (0 + i) = Some True)"
    by auto
  from ceach [of 0] ceach [of 1] ceach [of 2] ceach [of 3] ceach [of 7] coil
  have packed: "\<not> bit (cdata ! 0) 0" "bit (cdata ! 0) 1" "\<not> bit (cdata ! 0) 2" "bit (cdata ! 0) 3"
    "\<not> bit (cdata ! 0) 7"
    by simp_all
  from first d zeros c packed show ?thesis
    by blast
qed

end
